theory Spec2Isabelle
  imports Main
begin

section \<open>JavaScript values\<close>

text \<open>
  The message utilities of \<^verbatim>\<open>frontend/src/utils/websocketUtils.ts\<close> work on plain
  JavaScript values: \<^verbatim>\<open>validateMessage\<close> takes \<^verbatim>\<open>any\<close>, and a message is an object
  literal. A value is modelled as it is at run time. An object is the list of its own
  properties in insertion order. A string is its sequence of 16-bit code units, each
  written as the one, two or three bytes of its UTF-8 form, a surrogate like any other unit
  (CESU-8): text in ASCII is itself, every sequence of code units has its bytes, and
  comparison, the test for the empty string and concatenation are those of the code units.
  A Number is an exact decimal, \<open>JNum m k\<close> for
  \<open>m / 10 ^ k\<close>, in lowest form when \<open>k\<close> is \<open>0\<close> or \<open>m\<close> does not end in \<open>0\<close>
  (the rounding of a literal to a double stays outside this development). The values are
  finite trees of these eight kinds: a function, a symbol and an object that contains
  itself are no values of the model.
\<close>

datatype jsvalue =
    JUndefined
  | JNull
  | JBool bool
  | JNum int nat
  | JBigInt int
  | JStr string
  | JArr "jsvalue list"
  | JObj "(string \<times> jsvalue) list"

text \<open>The \<^verbatim>\<open>typeof\<close> operator.\<close>

fun typeof :: "jsvalue \<Rightarrow> string" where
  "typeof JUndefined = ''undefined''"
| "typeof JNull = ''object''"
| "typeof (JBool b) = ''boolean''"
| "typeof (JNum m k) = ''number''"
| "typeof (JBigInt n) = ''bigint''"
| "typeof (JStr s) = ''string''"
| "typeof (JArr xs) = ''object''"
| "typeof (JObj kvs) = ''object''"

text \<open>ToBoolean: what \<^verbatim>\<open>!x\<close> and \<^verbatim>\<open>x || y\<close> test.\<close>

fun truthy :: "jsvalue \<Rightarrow> bool" where
  "truthy JUndefined = False"
| "truthy JNull = False"
| "truthy (JBool b) = b"
| "truthy (JNum m k) = (m \<noteq> 0)"
| "truthy (JBigInt n) = (n \<noteq> 0)"
| "truthy (JStr s) = (s \<noteq> [])"
| "truthy (JArr xs) = True"
| "truthy (JObj kvs) = True"

text \<open>
  Reading a property \<^verbatim>\<open>v.k\<close> of a value that is neither \<^verbatim>\<open>undefined\<close> nor
  \<^verbatim>\<open>null\<close>. The keys the code reads (\<^verbatim>\<open>type\<close>, \<^verbatim>\<open>data\<close>, \<^verbatim>\<open>error\<close>,
  \<^verbatim>\<open>details\<close>, \<^verbatim>\<open>message_type\<close>) are no properties of a prototype, so an array, a
  string, a number and a boolean answer \<^verbatim>\<open>undefined\<close>.
\<close>

fun own_prop :: "jsvalue \<Rightarrow> string \<Rightarrow> jsvalue" where
  "own_prop (JObj kvs) k = (case map_of kvs k of Some v \<Rightarrow> v | None \<Rightarrow> JUndefined)"
| "own_prop v k = JUndefined"

datatype js_error = TypeError | SyntaxError | ReferenceError | InvalidStateError | Error string

text \<open>Reading a property of \<^verbatim>\<open>undefined\<close> or \<^verbatim>\<open>null\<close> throws a TypeError.\<close>

definition get_prop :: "jsvalue \<Rightarrow> string \<Rightarrow> js_error + jsvalue" where
  "get_prop v k = (if v = JUndefined \<or> v = JNull then Inl TypeError else Inr (own_prop v k))"

text \<open>A Record, as the interface types say it: a plain object.\<close>

fun is_record :: "jsvalue \<Rightarrow> bool" where
  "is_record (JObj kvs) = True"
| "is_record v = False"

section \<open>Message types and the environment\<close>

datatype MessageType =
    CONNECTION_ESTABLISHED
  | HEARTBEAT
  | ERROR
  | AGENT_STATE_UPDATE
  | AGENT_ACTION_REQUEST
  | AGENT_ACTION_RESPONSE
  | WORKFLOW_STATUS_UPDATE
  | WORKFLOW_STEP_COMPLETE
  | WORKFLOW_ERROR
  | HITL_CHECKPOINT_CREATED
  | HITL_RESPONSE_REQUIRED
  | HITL_RESPONSE_SUBMITTED
  | USER_MESSAGE
  | PREDICTION_REQUEST
  | PREDICTION_RESPONSE
  | STATE_CHANGE

text \<open>The string each member of the enum stands for.\<close>

fun MessageType_value :: "MessageType \<Rightarrow> string" where
  "MessageType_value CONNECTION_ESTABLISHED = ''connection_established''"
| "MessageType_value HEARTBEAT = ''heartbeat''"
| "MessageType_value ERROR = ''error''"
| "MessageType_value AGENT_STATE_UPDATE = ''agent_state_update''"
| "MessageType_value AGENT_ACTION_REQUEST = ''agent_action_request''"
| "MessageType_value AGENT_ACTION_RESPONSE = ''agent_action_response''"
| "MessageType_value WORKFLOW_STATUS_UPDATE = ''workflow_status_update''"
| "MessageType_value WORKFLOW_STEP_COMPLETE = ''workflow_step_complete''"
| "MessageType_value WORKFLOW_ERROR = ''workflow_error''"
| "MessageType_value HITL_CHECKPOINT_CREATED = ''hitl_checkpoint_created''"
| "MessageType_value HITL_RESPONSE_REQUIRED = ''hitl_response_required''"
| "MessageType_value HITL_RESPONSE_SUBMITTED = ''hitl_response_submitted''"
| "MessageType_value USER_MESSAGE = ''user_message''"
| "MessageType_value PREDICTION_REQUEST = ''prediction_request''"
| "MessageType_value PREDICTION_RESPONSE = ''prediction_response''"
| "MessageType_value STATE_CHANGE = ''state_change''"

text \<open>
  What one call reads from the platform: \<^verbatim>\<open>new Date().toISOString()\<close>,
  \<^verbatim>\<open>Date.now()\<close> (milliseconds, an integer) and
  \<^verbatim>\<open>Math.random().toString(36)\<close>. The three reads are inputs of the model.
\<close>

record env =
  date_iso :: string
  date_now :: int
  random36 :: string

section \<open>Numbers and strings as text\<close>

text \<open>Decimal digits of an integer, as a template literal and \<^verbatim>\<open>JSON.stringify\<close> print it.\<close>

definition digit_char :: "nat \<Rightarrow> char" where
  "digit_char d = ''0123456789'' ! d"

fun show_nat :: "nat \<Rightarrow> string" where
  "show_nat n = (if n < 10 then [digit_char n] else show_nat (n div 10) @ [digit_char (n mod 10)])"

declare show_nat.simps [simp del]

definition show_int :: "int \<Rightarrow> string" where
  "show_int i = (if i < 0 then CHR ''-'' # show_nat (nat (- i)) else show_nat (nat i))"

text \<open>
  A Number as \<^verbatim>\<open>JSON.stringify\<close> prints it, in positional notation: the integer part,
  and after a point the \<open>k\<close> digits of the fraction, leading zeros kept.
\<close>

fun show_fixed :: "nat \<Rightarrow> nat \<Rightarrow> string" where
  "show_fixed 0 n = []"
| "show_fixed (Suc k) n = show_fixed k (n div 10) @ [digit_char (n mod 10)]"

definition show_unsigned :: "nat \<Rightarrow> nat \<Rightarrow> string" where
  "show_unsigned a k = (if k = 0 then show_nat a else show_nat (a div 10 ^ k) @ ''.'' @ show_fixed k a)"

definition show_decimal :: "int \<Rightarrow> nat \<Rightarrow> string" where
  "show_decimal m k = (if m < 0 then CHR ''-'' # show_unsigned (nat (- m)) k else show_unsigned (nat m) k)"

definition is_digit :: "char \<Rightarrow> bool" where
  "is_digit c = (c \<in> set ''0123456789'')"

definition digit_val :: "char \<Rightarrow> nat" where
  "digit_val c = of_char c - 48"

definition read_nat :: "string \<Rightarrow> nat" where
  "read_nat s = foldl (\<lambda>a c. 10 * a + digit_val c) 0 s"

text \<open>\<^verbatim>\<open>s.substr(start, len)\<close> for non-negative arguments.\<close>

definition substr :: "string \<Rightarrow> nat \<Rightarrow> nat \<Rightarrow> string" where
  "substr s start len = take len (drop start s)"

text \<open>\<^verbatim>\<open>Array.prototype.join\<close> on strings.\<close>

fun join :: "string \<Rightarrow> string list \<Rightarrow> string" where
  "join sep [] = []"
| "join sep [x] = x"
| "join sep (x # y # ys) = x @ sep @ join sep (y # ys)"

section \<open>JSON.stringify\<close>

text \<open>
  \<^verbatim>\<open>JSON.stringify\<close> and \<^verbatim>\<open>JSON.parse\<close> are the platform's; the code calls them on
  every frame. They are modelled on the values above: \<^verbatim>\<open>stringify\<close> without
  indentation, a property whose value is \<^verbatim>\<open>undefined\<close> left out of an object and printed
  \<^verbatim>\<open>null\<close> in an array, the quote \<open>CHR 0x22\<close>, the backslash \<open>CHR 0x5C\<close>, the control
  characters and the surrogates that stand alone escaped.
\<close>

definition hex_char :: "nat \<Rightarrow> char" where
  "hex_char d = ''0123456789abcdef'' ! d"

definition quote_char :: "char \<Rightarrow> string" where
  "quote_char c =
     (if c = CHR 0x22 then [CHR 0x5C, CHR 0x22]
      else if c = CHR 0x5C then [CHR 0x5C, CHR 0x5C]
      else if c = CHR 0x08 then [CHR 0x5C, CHR ''b'']
      else if c = CHR 0x0C then [CHR 0x5C, CHR ''f'']
      else if c = CHR 0x0A then [CHR 0x5C, CHR ''n'']
      else if c = CHR 0x0D then [CHR 0x5C, CHR ''r'']
      else if c = CHR 0x09 then [CHR 0x5C, CHR ''t'']
      else if (of_char c :: nat) < 32
        then [CHR 0x5C, CHR ''u'', CHR ''0'', CHR ''0'', hex_char (of_char c div 16), hex_char (of_char c mod 16)]
      else [c])"

text \<open>
  The bytes of a surrogate are \<open>CHR 0xED\<close>, a byte from \<open>0xA0\<close> and a continuation byte;
  it is a leading one below \<open>0xB0\<close>. A leading surrogate with a trailing one after it is
  printed as it is; any other surrogate is printed as the escape of its code unit.
\<close>

definition is_cont :: "char \<Rightarrow> bool" where
  "is_cont c = (0x80 \<le> (of_char c :: int) \<and> (of_char c :: int) < 0xC0)"

definition surrogate :: "char \<Rightarrow> char \<Rightarrow> char \<Rightarrow> bool" where
  "surrogate c b1 b2 = (c = CHR 0xED \<and> 0xA0 \<le> (of_char b1 :: int) \<and> (of_char b1 :: int) < 0xC0 \<and> is_cont b2)"

definition leading :: "char \<Rightarrow> bool" where
  "leading b1 = ((of_char b1 :: int) < 0xB0)"

definition unit_of :: "char \<Rightarrow> char \<Rightarrow> int" where
  "unit_of b1 b2 = 0xD000 + (of_char b1 - 0x80) * 64 + (of_char b2 - 0x80)"

definition escape_unit :: "int \<Rightarrow> string" where
  "escape_unit n =
     [CHR 0x5C, CHR ''u'', hex_char (nat (n div 4096)), hex_char (nat (n div 256 mod 16)),
      hex_char (nat (n div 16 mod 16)), hex_char (nat (n mod 16))]"

definition low_next :: "string \<Rightarrow> bool" where
  "low_next r = (case r of d # d1 # d2 # r' \<Rightarrow> surrogate d d1 d2 \<and> \<not> leading d1 | _ \<Rightarrow> False)"

fun quote_units :: "string \<Rightarrow> string" where
  "quote_units (c # b1 # b2 # r) =
     (if surrogate c b1 b2 then
        (if leading b1 \<and> low_next r then c # b1 # b2 # take 3 r @ quote_units (drop 3 r)
         else escape_unit (unit_of b1 b2) @ quote_units r)
      else quote_char c @ quote_units (b1 # b2 # r))"
| "quote_units (c # r) = quote_char c @ quote_units r"
| "quote_units [] = []"

definition quote :: "string \<Rightarrow> string" where
  "quote s = CHR 0x22 # quote_units s @ [CHR 0x22]"

text \<open>
  The text of a value. \<^verbatim>\<open>JSON.stringify\<close> has no text for a BigInt: it throws when it
  reaches one (\<open>reaches_BigInt\<close> below), so the empty text here is never returned.
\<close>

fun str_value :: "jsvalue \<Rightarrow> string" where
  "str_value JUndefined = ''null''"
| "str_value JNull = ''null''"
| "str_value (JBool b) = (if b then ''true'' else ''false'')"
| "str_value (JNum m k) = show_decimal m k"
| "str_value (JBigInt n) = []"
| "str_value (JStr s) = quote s"
| "str_value (JArr vs) = ''['' @ join '','' (map str_value vs) @ '']''"
| "str_value (JObj kvs) =
     ''{'' @ join '','' (map (\<lambda>(k, v). quote k @ '':'' @ str_value v)
                           (filter (\<lambda>(k, v). v \<noteq> JUndefined) kvs)) @ ''}''"

text \<open>
  The values on which \<^verbatim>\<open>JSON.stringify\<close> throws a TypeError: a BigInt, and an array or
  an object that holds one at any depth.
\<close>

fun reaches_BigInt :: "jsvalue \<Rightarrow> bool" where
  "reaches_BigInt (JBigInt n) = True"
| "reaches_BigInt (JArr vs) = (\<exists>v \<in> set vs. reaches_BigInt v)"
| "reaches_BigInt (JObj kvs) = (\<exists>v \<in> set (map snd kvs). reaches_BigInt v)"
| "reaches_BigInt v = False"

text \<open>
  \<^verbatim>\<open>JSON.stringify\<close>: the TypeError, or the text; at the top,
  \<^verbatim>\<open>JSON.stringify(undefined)\<close> is \<^verbatim>\<open>undefined\<close>, not a string.
\<close>

definition JSON_stringify :: "jsvalue \<Rightarrow> js_error + string option" where
  "JSON_stringify v =
     (if reaches_BigInt v then Inl TypeError
      else if v = JUndefined then Inr None
      else Inr (Some (str_value v)))"

text \<open>
  The values \<^verbatim>\<open>JSON.stringify\<close> prints without loss: no \<^verbatim>\<open>undefined\<close> and no
  BigInt anywhere, no key twice in an object, and every Number in lowest form.
\<close>

fun serializable :: "jsvalue \<Rightarrow> bool" where
  "serializable JUndefined = False"
| "serializable JNull = True"
| "serializable (JBool b) = True"
| "serializable (JNum m k) = (k = 0 \<or> m mod 10 \<noteq> 0)"
| "serializable (JBigInt n) = False"
| "serializable (JStr s) = True"
| "serializable (JArr vs) = (\<forall>v \<in> set vs. serializable v)"
| "serializable (JObj kvs) = (distinct (map fst kvs) \<and> (\<forall>v \<in> set (map snd kvs). serializable v))"

section \<open>JSON.parse\<close>

text \<open>
  A recursive-descent reader of the JSON grammar; \<open>None\<close> is the SyntaxError that
  \<^verbatim>\<open>JSON.parse\<close> throws. Each reader answers the value and the text left.
\<close>

definition is_ws :: "char \<Rightarrow> bool" where
  "is_ws c = (c = CHR '' '' \<or> c = CHR 0x09 \<or> c = CHR 0x0A \<or> c = CHR 0x0D)"

definition skip_ws :: "string \<Rightarrow> string" where
  "skip_ws s = dropWhile is_ws s"

definition hex_val :: "char \<Rightarrow> int option" where
  "hex_val c =
     (if is_digit c then Some (of_char c - 48)
      else if c \<in> set ''abcdef'' then Some (of_char c - 87)
      else if c \<in> set ''ABCDEF'' then Some (of_char c - 55)
      else None)"

definition hex4 :: "char \<Rightarrow> char \<Rightarrow> char \<Rightarrow> char \<Rightarrow> int option" where
  "hex4 h1 h2 h3 h4 =
     (case (hex_val h1, hex_val h2, hex_val h3, hex_val h4) of
        (Some a, Some b, Some c, Some d) \<Rightarrow> Some (((a * 16 + b) * 16 + c) * 16 + d)
      | _ \<Rightarrow> None)"

definition unescape :: "char \<Rightarrow> char option" where
  "unescape x =
     (if x = CHR 0x22 then Some (CHR 0x22)
      else if x = CHR 0x5C then Some (CHR 0x5C)
      else if x = CHR ''/'' then Some (CHR ''/'')
      else if x = CHR ''b'' then Some (CHR 0x08)
      else if x = CHR ''f'' then Some (CHR 0x0C)
      else if x = CHR ''n'' then Some (CHR 0x0A)
      else if x = CHR ''r'' then Some (CHR 0x0D)
      else if x = CHR ''t'' then Some (CHR 0x09)
      else None)"

text \<open>The bytes of a code unit.\<close>

definition code_unit :: "int \<Rightarrow> string" where
  "code_unit n =
     (if n < 0x80 then [char_of n]
      else if n < 0x800 then [char_of (0xC0 + n div 64), char_of (0x80 + n mod 64)]
      else [char_of (0xE0 + n div 4096), char_of (0x80 + n div 64 mod 64), char_of (0x80 + n mod 64)])"

text \<open>What follows a backslash: the bytes it stands for, and the text left.\<close>

definition parse_escape :: "string \<Rightarrow> (string \<times> string) option" where
  "parse_escape r =
     (case r of
        [] \<Rightarrow> None
      | x # r1 \<Rightarrow>
          if x = CHR ''u'' then
            (case r1 of
               h1 # h2 # h3 # h4 # r2 \<Rightarrow> map_option (\<lambda>n. (code_unit n, r2)) (hex4 h1 h2 h3 h4)
             | _ \<Rightarrow> None)
          else map_option (\<lambda>ch. ([ch], r1)) (unescape x))"

lemma parse_escape_shrinks: "parse_escape r = Some (chs, r1) \<Longrightarrow> length r1 < length r"
  by (auto simp add: parse_escape_def split: list.splits if_splits option.splits)

text \<open>The characters of a string after its opening quote, up to the closing one.\<close>

function parse_chars :: "string \<Rightarrow> (string \<times> string) option" where
  "parse_chars [] = None"
| "parse_chars (c # r) =
     (if c = CHR 0x22 then Some ([], r)
      else if c = CHR 0x5C then
        (case parse_escape r of
           None \<Rightarrow> None
         | Some (chs, r1) \<Rightarrow> map_option (\<lambda>(s, r2). (chs @ s, r2)) (parse_chars r1))
      else if (of_char c :: nat) < 32 then None
      else map_option (\<lambda>(s, r1). (c # s, r1)) (parse_chars r))"
  by pat_completeness auto
termination
  by (relation "measure length") (auto dest: parse_escape_shrinks)

text \<open>
  A number literal: an optional minus, an integer part that is \<^verbatim>\<open>0\<close> or digits that do
  not start with \<^verbatim>\<open>0\<close>, an optional fraction of at least one digit, an optional exponent
  of at least one digit with an optional sign.
\<close>

definition parse_int_part :: "string \<Rightarrow> (string \<times> string) option" where
  "parse_int_part s =
     (case s of
        [] \<Rightarrow> None
      | c # r \<Rightarrow>
          if c = CHR ''0'' then Some (''0'', r)
          else if is_digit c then Some (takeWhile is_digit s, dropWhile is_digit s)
          else None)"

definition parse_fraction :: "string \<Rightarrow> (string \<times> string) option" where
  "parse_fraction s =
     (case s of
        [] \<Rightarrow> Some ([], s)
      | c # r \<Rightarrow>
          if c = CHR ''.'' then
            (if takeWhile is_digit r = [] then None else Some (takeWhile is_digit r, dropWhile is_digit r))
          else Some ([], s))"

definition parse_exponent :: "string \<Rightarrow> (int \<times> string) option" where
  "parse_exponent s =
     (case s of
        [] \<Rightarrow> Some (0, s)
      | c # r \<Rightarrow>
          if c = CHR ''e'' \<or> c = CHR ''E'' then
            (let neg = (r \<noteq> [] \<and> hd r = CHR ''-'');
                 r1 = (if r \<noteq> [] \<and> (hd r = CHR ''-'' \<or> hd r = CHR ''+'') then tl r else r)
             in if takeWhile is_digit r1 = [] then None
                else Some (if neg then - int (read_nat (takeWhile is_digit r1))
                           else int (read_nat (takeWhile is_digit r1)),
                           dropWhile is_digit r1))
          else Some (0, s))"

text \<open>The lowest form of \<open>m / 10 ^ k\<close>: the zeros that end the fraction are dropped.\<close>

fun norm :: "nat \<Rightarrow> nat \<Rightarrow> nat \<times> nat" where
  "norm m 0 = (m, 0)"
| "norm m (Suc k) = (if m mod 10 = 0 then norm (m div 10) k else (m, Suc k))"

text \<open>
  The number whose digits read \<open>M\<close>, \<open>scale\<close> of them after the point, times ten to the
  \<open>E\<close>.
\<close>

definition decimal :: "nat \<Rightarrow> nat \<Rightarrow> int \<Rightarrow> nat \<times> nat" where
  "decimal M scale E =
     (if int scale \<le> E then (M * 10 ^ nat (E - int scale), 0) else norm M (nat (int scale - E)))"

definition parse_unsigned :: "string \<Rightarrow> ((nat \<times> nat) \<times> string) option" where
  "parse_unsigned s =
     (case parse_int_part s of
        None \<Rightarrow> None
      | Some (ds, r1) \<Rightarrow>
          (case parse_fraction r1 of
             None \<Rightarrow> None
           | Some (fs, r2) \<Rightarrow>
               (case parse_exponent r2 of
                  None \<Rightarrow> None
                | Some (E, r3) \<Rightarrow> Some (decimal (read_nat (ds @ fs)) (length fs) E, r3))))"

definition parse_number :: "string \<Rightarrow> (jsvalue \<times> string) option" where
  "parse_number s =
     (case s of
        [] \<Rightarrow> None
      | c # r \<Rightarrow>
          if c = CHR ''-'' then map_option (\<lambda>((m, k), r1). (JNum (- int m) k, r1)) (parse_unsigned r)
          else map_option (\<lambda>((m, k), r1). (JNum (int m) k, r1)) (parse_unsigned s))"

text \<open>
  The object a list of members makes: a key read again overwrites the value and keeps its
  first place.
\<close>

fun put :: "string \<Rightarrow> jsvalue \<Rightarrow> (string \<times> jsvalue) list \<Rightarrow> (string \<times> jsvalue) list" where
  "put k v [] = [(k, v)]"
| "put k v ((k', v') # kvs) = (if k = k' then (k, v) # kvs else (k', v') # put k v kvs)"

definition object_of :: "(string \<times> jsvalue) list \<Rightarrow> (string \<times> jsvalue) list" where
  "object_of kvs = foldl (\<lambda>acc (k, v). put k v acc) [] kvs"

lemma length_skip_ws: "length (skip_ws s) \<le> length s"
  by (simp add: skip_ws_def length_dropWhile_le)

lemma parse_chars_shrinks: "parse_chars s = Some (x, r) \<Longrightarrow> length r < length s"
proof (induction s arbitrary: x r rule: parse_chars.induct)
  case 1
  then show ?case by simp
next
  case (2 c r')
  show ?case
  proof (cases "c = CHR 0x5C")
    case True
    with "2.prems" obtain ch r1 s' where e: "parse_escape r' = Some (ch, r1)"
      and p: "parse_chars r1 = Some (s', r)"
      by (auto split: option.splits)
    from True have "c \<noteq> CHR 0x22" by simp
    from "2.IH"(1) [OF this True e refl p] have "length r < length r1" .
    with parse_escape_shrinks [OF e] show ?thesis by simp
  next
    case False
    with "2.prems" "2.IH"(2) show ?thesis
      by (fastforce split: if_splits)
  qed
qed

text \<open>
  Values, the elements of an array after its bracket, and the members of an object after
  its brace. The tests \<open>length r < length s\<close> hold whenever they are reached
  (\<open>parse_value_shrinks\<close> below); they make the recursion visibly well-founded.
\<close>

function parse_value :: "string \<Rightarrow> (jsvalue \<times> string) option"
  and parse_elements :: "string \<Rightarrow> (jsvalue list \<times> string) option"
  and parse_members :: "string \<Rightarrow> ((string \<times> jsvalue) list \<times> string) option"
where
  "parse_value s =
     (case skip_ws s of
        [] \<Rightarrow> None
      | c # r \<Rightarrow>
          if c = CHR ''{'' then
            (case skip_ws r of
               [] \<Rightarrow> None
             | c1 # r1 \<Rightarrow>
                 if c1 = CHR ''}'' then Some (JObj [], r1)
                 else map_option (\<lambda>(kvs, r2). (JObj (object_of kvs), r2)) (parse_members r))
          else if c = CHR ''['' then
            (case skip_ws r of
               [] \<Rightarrow> None
             | c1 # r1 \<Rightarrow>
                 if c1 = CHR '']'' then Some (JArr [], r1)
                 else map_option (\<lambda>(vs, r2). (JArr vs, r2)) (parse_elements r))
          else if c = CHR 0x22 then map_option (\<lambda>(str, r1). (JStr str, r1)) (parse_chars r)
          else if c = CHR ''t'' then (if take 3 r = ''rue'' then Some (JBool True, drop 3 r) else None)
          else if c = CHR ''f'' then (if take 4 r = ''alse'' then Some (JBool False, drop 4 r) else None)
          else if c = CHR ''n'' then (if take 3 r = ''ull'' then Some (JNull, drop 3 r) else None)
          else parse_number (c # r))"
| "parse_elements s =
     (case parse_value s of
        None \<Rightarrow> None
      | Some (v, r) \<Rightarrow>
          if length r < length s then
            (case skip_ws r of
               [] \<Rightarrow> None
             | c # r1 \<Rightarrow>
                 if c = CHR '','' then map_option (\<lambda>(vs, r2). (v # vs, r2)) (parse_elements r1)
                 else if c = CHR '']'' then Some ([v], r1)
                 else None)
          else None)"
| "parse_members s =
     (case skip_ws s of
        [] \<Rightarrow> None
      | q # r \<Rightarrow>
          if q \<noteq> CHR 0x22 then None
          else
            (case parse_chars r of
               None \<Rightarrow> None
             | Some (k, r1) \<Rightarrow>
                 (case skip_ws r1 of
                    [] \<Rightarrow> None
                  | col # r2 \<Rightarrow>
                      if col \<noteq> CHR '':'' then None
                      else
                        (case parse_value r2 of
                           None \<Rightarrow> None
                         | Some (v, r3) \<Rightarrow>
                             if length r3 < length r2 then
                               (case skip_ws r3 of
                                  [] \<Rightarrow> None
                                | c # r4 \<Rightarrow>
                                    if c = CHR '','' then
                                      map_option (\<lambda>(kvs, r5). ((k, v) # kvs, r5)) (parse_members r4)
                                    else if c = CHR ''}'' then Some ([(k, v)], r4)
                                    else None)
                             else None))))"
  by pat_completeness auto
termination
proof (relation "measure (\<lambda>x. case x of Inl s \<Rightarrow> 2 * length s
                                     | Inr (Inl s) \<Rightarrow> 2 * length s + 1
                                     | Inr (Inr s) \<Rightarrow> 2 * length s + 1)", goal_cases)
  case 1
  then show ?case by simp
next
  case (2 s c r c1 r1)
  then show ?case using length_skip_ws [of s] by simp
next
  case (3 s c r c1 r1)
  then show ?case using length_skip_ws [of s] by simp
next
  case (4 s)
  then show ?case by simp
next
  case (5 s x v r c r1)
  then show ?case using length_skip_ws [of r] by simp
next
  case (6 s q r x k r1 col r2)
  then show ?case
    using length_skip_ws [of s] length_skip_ws [of r1] parse_chars_shrinks [of r k r1] by simp
next
  case (7 s q r x k r1 col r2 y v r3 c r4)
  then show ?case
    using length_skip_ws [of s] length_skip_ws [of r1] length_skip_ws [of r3]
      parse_chars_shrinks [of r k r1] by simp
qed

declare parse_value.simps [simp del] parse_elements.simps [simp del] parse_members.simps [simp del]

text \<open>A JSON text is one value with nothing but white space after it.\<close>

definition JSON_parse :: "string \<Rightarrow> jsvalue option" where
  "JSON_parse s =
     (case parse_value s of
        None \<Rightarrow> None
      | Some (v, r) \<Rightarrow> if skip_ws r = [] then Some v else None)"

section \<open>websocketUtils.ts\<close>

text \<open>The identifier \<^verbatim>\<open>createStandardMessage\<close> generates when none is passed.\<close>

definition generated_message_id :: "env \<Rightarrow> string" where
  "generated_message_id e = ''msg_'' @ show_int (date_now e) @ ''_'' @ substr (random36 e) 2 9"

definition createStandardMessage ::
    "env \<Rightarrow> MessageType \<Rightarrow> (string \<times> jsvalue) list \<Rightarrow> string option \<Rightarrow> jsvalue" where
  "createStandardMessage e type data messageId =
     JObj [(''type'', JStr (MessageType_value type)),
           (''data'', JObj data),
           (''timestamp'', JStr (date_iso e)),
           (''message_id'', JStr (case messageId of
                None \<Rightarrow> generated_message_id e
              | Some m \<Rightarrow> if m \<noteq> [] then m else generated_message_id e))]"

definition validateMessage :: "jsvalue \<Rightarrow> bool" where
  "validateMessage message =
     (if typeof message \<noteq> ''object'' \<or> message = JNull then False
      else if \<not> truthy (own_prop message ''type'') \<or> typeof (own_prop message ''type'') \<noteq> ''string''
        then False
      else if \<not> truthy (own_prop message ''data'') \<or> typeof (own_prop message ''data'') \<noteq> ''object''
        then False
      else True)"

text \<open>
  \<^verbatim>\<open>parseWebSocketMessage\<close>: \<open>None\<close> is the \<^verbatim>\<open>null\<close> it returns, from the
  \<^verbatim>\<open>catch\<close> of a SyntaxError and from a failed validation alike (the two differ only
  in what is logged).
\<close>

definition parseWebSocketMessage :: "string \<Rightarrow> jsvalue option" where
  "parseWebSocketMessage data =
     (case JSON_parse data of
        None \<Rightarrow> None
      | Some parsed \<Rightarrow> if \<not> validateMessage parsed then None else Some parsed)"

text \<open>
  \<^verbatim>\<open>createHeartbeatMessage\<close> reads the clock for \<^verbatim>\<open>client_time\<close> while it builds the
  argument, before \<^verbatim>\<open>createStandardMessage\<close> reads it again: \<open>client_time\<close> is the
  first reading.
\<close>

definition createHeartbeatMessage :: "string \<Rightarrow> env \<Rightarrow> jsvalue" where
  "createHeartbeatMessage client_time e =
     createStandardMessage e HEARTBEAT [(''client_time'', JStr client_time)] None"

text \<open>An optional string argument left out is \<^verbatim>\<open>undefined\<close>.\<close>

fun optional_string :: "string option \<Rightarrow> jsvalue" where
  "optional_string None = JUndefined"
| "optional_string (Some s) = JStr s"

definition createHITLResponseMessage :: "env \<Rightarrow> string \<Rightarrow> bool \<Rightarrow> string option \<Rightarrow> jsvalue" where
  "createHITLResponseMessage e checkpointId approved feedback =
     createStandardMessage e HITL_RESPONSE_SUBMITTED
       [(''checkpoint_id'', JStr checkpointId),
        (''response_data'', JObj [(''approved'', JBool approved), (''feedback'', optional_string feedback)])]
       None"

definition createUserMessage :: "env \<Rightarrow> string \<Rightarrow> jsvalue" where
  "createUserMessage e content = createStandardMessage e USER_MESSAGE [(''content'', JStr content)] None"

definition createStateChangeMessage :: "env \<Rightarrow> string \<Rightarrow> (string \<times> jsvalue) list \<Rightarrow> jsvalue" where
  "createStateChangeMessage e workflowId statePatch =
     createStandardMessage e STATE_CHANGE
       [(''workflow_id'', JStr workflowId), (''state_patch'', JObj statePatch)] None"

text \<open>
  \<^verbatim>\<open>extractErrorDetails\<close>: the \<^verbatim>\<open>throw\<close> is the left summand, and so is the TypeError
  of a property read on \<^verbatim>\<open>undefined\<close> or \<^verbatim>\<open>null\<close>. \<^verbatim>\<open>a || b\<close> is \<open>a\<close> when \<open>a\<close>
  is truthy and \<open>b\<close> otherwise.
\<close>

definition extractErrorDetails :: "jsvalue \<Rightarrow> js_error + jsvalue" where
  "extractErrorDetails message =
     (case get_prop message ''type'' of
        Inl x \<Rightarrow> Inl x
      | Inr t \<Rightarrow>
          if t \<noteq> JStr (MessageType_value ERROR) then Inl (Error ''Message is not an error message'')
          else (case get_prop message ''data'' of
                  Inl x \<Rightarrow> Inl x
                | Inr d \<Rightarrow>
                    (case get_prop d ''error'' of
                       Inl x \<Rightarrow> Inl x
                     | Inr err \<Rightarrow>
                         Inr (JObj [(''error'', if truthy err then err else JStr ''Unknown error''),
                                    (''details'', own_prop d ''details''),
                                    (''messageType'', own_prop d ''message_type'')]))))"

text \<open>
  The interface \<^verbatim>\<open>StandardWebSocketMessage\<close>: \<open>type\<close> a string, \<open>data\<close> a Record,
  \<open>timestamp\<close> and \<open>message_id\<close> strings when present.
\<close>

definition is_StandardWebSocketMessage :: "jsvalue \<Rightarrow> bool" where
  "is_StandardWebSocketMessage m =
     (is_record m \<and> typeof (own_prop m ''type'') = ''string'' \<and> is_record (own_prop m ''data'')
      \<and> typeof (own_prop m ''timestamp'') \<in> {''string'', ''undefined''}
      \<and> typeof (own_prop m ''message_id'') \<in> {''string'', ''undefined''})"

text \<open>\<^verbatim>\<open>isValidationError\<close> and \<^verbatim>\<open>isHandlerError\<close>; \<open>message\<close> has passed validation.\<close>

definition isValidationError :: "jsvalue \<Rightarrow> bool" where
  "isValidationError message =
     (own_prop message ''type'' = JStr (MessageType_value ERROR)
      \<and> own_prop (own_prop message ''data'') ''error'' = JStr ''Message validation failed'')"

definition isHandlerError :: "jsvalue \<Rightarrow> bool" where
  "isHandlerError message =
     (own_prop message ''type'' = JStr (MessageType_value ERROR)
      \<and> own_prop (own_prop message ''data'') ''error'' = JStr ''Handler execution failed'')"

section \<open>buildWebSocketUrl and the connection parameters of useWorkflow\<close>

record WebSocketConnectionParams =
  user_id :: string
  project_id :: string
  workflow_id :: "string option"

text \<open>
  A \<^verbatim>\<open>URL\<close> object: the base it was resolved against, its path and its query parameters
  in order. The model keeps the object; its serialisation by \<^verbatim>\<open>toString\<close> (the base's
  origin, the path, the percent-encoded query) is the platform's.
\<close>

record URL =
  href_base :: string
  pathname :: string
  searchParams :: "(string \<times> string) list"

text \<open>
  \<^verbatim>\<open>new URL(path, base)\<close> for an absolute path: a TypeError when the platform does not
  accept the base. Which bases it accepts is the parameter \<open>valid_base\<close>.
\<close>

definition URL_new :: "(string \<Rightarrow> bool) \<Rightarrow> string \<Rightarrow> string \<Rightarrow> js_error + URL" where
  "URL_new valid_base path b =
     (if valid_base b then Inr \<lparr>href_base = b, pathname = path, searchParams = []\<rparr> else Inl TypeError)"

text \<open>\<^verbatim>\<open>URLSearchParams.set\<close>: the first pair of the name gets the value, the others go.\<close>

fun searchParams_set :: "string \<Rightarrow> string \<Rightarrow> (string \<times> string) list \<Rightarrow> (string \<times> string) list" where
  "searchParams_set k v [] = [(k, v)]"
| "searchParams_set k v (p # ps) =
     (if fst p = k then (k, v) # filter (\<lambda>q. fst q \<noteq> k) ps else p # searchParams_set k v ps)"

definition buildWebSocketUrl ::
    "(string \<Rightarrow> bool) \<Rightarrow> string option \<Rightarrow> WebSocketConnectionParams \<Rightarrow> js_error + URL" where
  "buildWebSocketUrl valid_base baseUrl params =
     (case URL_new valid_base ''/ws'' (case baseUrl of None \<Rightarrow> ''ws://localhost:8000'' | Some b \<Rightarrow> b) of
        Inl x \<Rightarrow> Inl x
      | Inr wsUrl \<Rightarrow>
          let wsUrl1 = wsUrl\<lparr>searchParams := searchParams_set ''user_id'' (user_id params) (searchParams wsUrl)\<rparr>;
              wsUrl2 = wsUrl1\<lparr>searchParams :=
                         searchParams_set ''project_id'' (project_id params) (searchParams wsUrl1)\<rparr>
          in Inr (case workflow_id params of
                    None \<Rightarrow> wsUrl2
                  | Some w \<Rightarrow>
                      if w \<noteq> [] then wsUrl2\<lparr>searchParams := searchParams_set ''workflow_id'' w (searchParams wsUrl2)\<rparr>
                      else wsUrl2))"


section \<open>useWebSocket.ts\<close>

text \<open>
  The hook is a state machine: its React state and refs are the fields of \<open>hook\<close>, and
  each callback is a function on it. A \<^verbatim>\<open>WebSocket\<close> is its URL, its \<^verbatim>\<open>readyState\<close> and
  the frames handed to \<^verbatim>\<open>send\<close> while it was open, in order. The callbacks of the
  caller are not run; the calls are recorded in \<open>calls\<close>. The hook holds one socket at a
  time, and a socket event is an event of the socket it holds or has just let go of.
\<close>

datatype readyState = CONNECTING | OPEN | CLOSING | CLOSED

record WebSocket =
  ws_url :: URL
  readyState :: readyState
  sent :: "string list"

text \<open>
  \<^verbatim>\<open>WebSocket.send\<close>: an InvalidStateError while connecting, the frame transmitted while
  open, and the frame dropped once the socket is closing or closed.
\<close>

definition ws_send :: "WebSocket \<Rightarrow> string \<Rightarrow> js_error + WebSocket" where
  "ws_send ws frame =
     (case readyState ws of
        CONNECTING \<Rightarrow> Inl InvalidStateError
      | OPEN \<Rightarrow> Inr (ws\<lparr>sent := sent ws @ [frame]\<rparr>)
      | CLOSING \<Rightarrow> Inr ws
      | CLOSED \<Rightarrow> Inr ws)"

text \<open>The string \<^verbatim>\<open>send\<close> makes of what \<^verbatim>\<open>JSON.stringify\<close> returned.\<close>

definition DOMString :: "string option \<Rightarrow> string" where
  "DOMString s = (case s of None \<Rightarrow> ''undefined'' | Some x \<Rightarrow> x)"

datatype connectionState = connecting | connected | disconnected | error

record Stats =
  messagesSent :: nat
  messagesReceived :: nat
  reconnectAttempts :: nat
  validationErrors :: nat
  handlerErrors :: nat
  lastConnectedAt :: "string option"
  lastDisconnectedAt :: "string option"

record WebSocketOptions =
  connectionParams :: WebSocketConnectionParams
  baseUrl :: "string option"
  reconnectInterval :: "nat option"
  maxReconnectAttempts :: "nat option"
  heartbeatInterval :: "nat option"

text \<open>The defaults of the destructured options, in milliseconds and attempts.\<close>

definition reconnectInterval_of :: "WebSocketOptions \<Rightarrow> nat" where
  "reconnectInterval_of options = (case reconnectInterval options of None \<Rightarrow> 3000 | Some n \<Rightarrow> n)"

definition maxReconnectAttempts_of :: "WebSocketOptions \<Rightarrow> nat" where
  "maxReconnectAttempts_of options = (case maxReconnectAttempts options of None \<Rightarrow> 5 | Some n \<Rightarrow> n)"

definition heartbeatInterval_of :: "WebSocketOptions \<Rightarrow> nat" where
  "heartbeatInterval_of options = (case heartbeatInterval options of None \<Rightarrow> 30000 | Some n \<Rightarrow> n)"

datatype callback = onConnect | onDisconnect | onMessage jsvalue | onError | onValidationError jsvalue jsvalue

text \<open>
  What the hook takes from the platform: the bases \<^verbatim>\<open>new URL\<close> accepts, the URLs
  \<^verbatim>\<open>new WebSocket\<close> accepts (it throws a SyntaxError on the others, those of a scheme it
  does not take), what \<^verbatim>\<open>getWebSocketBaseUrl()\<close> returns or throws in the environment,
  and whether the names \<^verbatim>\<open>url\<close> and \<^verbatim>\<open>params\<close> are bound in the global scope: the
  module declares neither, and the dependency list of its second effect reads both.
\<close>

record platform =
  URL_accepts :: "string \<Rightarrow> bool"
  WebSocket_accepts :: "URL \<Rightarrow> bool"
  base_url_of_env :: "js_error + string"
  url_params_bound :: bool

text \<open>
  \<open>heartbeatTimeoutRef\<close> holds the period of the interval timer that is set, and
  \<open>reconnectTimeoutRef\<close> the delay of the pending reconnect. \<open>pendingConnects\<close> counts
  the calls of \<^verbatim>\<open>connect\<close> that \<^verbatim>\<open>reconnect\<close> has scheduled 100 ms ahead, which no ref
  holds. \<open>committed\<close> is the value of \<^verbatim>\<open>isConnected\<close> in the dependency list of the last
  commit, \<open>None\<close> before the first.
\<close>

record hook =
  wsRef :: "WebSocket option"
  isConnected :: bool
  connectionState :: connectionState
  lastMessage :: "jsvalue option"
  stats :: Stats
  heartbeatTimeoutRef :: "nat option"
  reconnectTimeoutRef :: "nat option"
  reconnectAttemptsRef :: nat
  shouldReconnectRef :: bool
  pendingConnects :: nat
  committed :: "bool option"
  calls :: "callback list"

definition initial_hook :: hook where
  "initial_hook =
     \<lparr>wsRef = None, isConnected = False, connectionState = disconnected, lastMessage = None,
      stats = \<lparr>messagesSent = 0, messagesReceived = 0, reconnectAttempts = 0, validationErrors = 0,
               handlerErrors = 0, lastConnectedAt = None, lastDisconnectedAt = None\<rparr>,
      heartbeatTimeoutRef = None, reconnectTimeoutRef = None, reconnectAttemptsRef = 0,
      shouldReconnectRef = True, pendingConnects = 0, committed = None, calls = []\<rparr>"

text \<open>\<^verbatim>\<open>wsRef.current?.readyState === WebSocket.OPEN\<close>.\<close>

definition is_open :: "hook \<Rightarrow> bool" where
  "is_open h = (case wsRef h of None \<Rightarrow> False | Some ws \<Rightarrow> readyState ws = OPEN)"

text \<open>The frames the hook's socket has transmitted.\<close>

definition frames :: "hook \<Rightarrow> string list" where
  "frames h = (case wsRef h of None \<Rightarrow> [] | Some ws \<Rightarrow> sent ws)"

text \<open>
  \<^verbatim>\<open>sendHeartbeat\<close> has no \<^verbatim>\<open>try\<close>: an error of \<^verbatim>\<open>send\<close> would leave the timer
  callback, which is the left summand.
\<close>

definition sendHeartbeat :: "string \<Rightarrow> env \<Rightarrow> hook \<Rightarrow> js_error + hook" where
  "sendHeartbeat client_time e h =
     (case wsRef h of
        None \<Rightarrow> Inr h
      | Some ws \<Rightarrow>
          if readyState ws = OPEN then
            (case JSON_stringify (createHeartbeatMessage client_time e) of
               Inl x \<Rightarrow> Inl x
             | Inr text \<Rightarrow>
                 (case ws_send ws (DOMString text) of
                    Inl x \<Rightarrow> Inl x
                  | Inr ws' \<Rightarrow> Inr (h\<lparr>wsRef := Some ws'\<rparr>)))
          else Inr h)"

definition startHeartbeat :: "WebSocketOptions \<Rightarrow> hook \<Rightarrow> hook" where
  "startHeartbeat options h = h\<lparr>heartbeatTimeoutRef := Some (heartbeatInterval_of options)\<rparr>"

definition stopHeartbeat :: "hook \<Rightarrow> hook" where
  "stopHeartbeat h = h\<lparr>heartbeatTimeoutRef := None\<rparr>"

text \<open>
  \<^verbatim>\<open>connect\<close>. The base is \<^verbatim>\<open>baseUrl || getWebSocketBaseUrl()\<close>. Building the URL and
  \<^verbatim>\<open>new WebSocket(wsUrl)\<close> stand in one \<^verbatim>\<open>try\<close>: whatever either throws, the
  \<^verbatim>\<open>catch\<close> sets the state \<^verbatim>\<open>error\<close> and the ref keeps what it held. The new socket
  is connecting.
\<close>

definition connect :: "platform \<Rightarrow> WebSocketOptions \<Rightarrow> hook \<Rightarrow> hook" where
  "connect p options h =
     (if is_open h then h
      else
        let h1 = h\<lparr>connectionState := connecting\<rparr>;
            wsBaseUrl = (case baseUrl options of
                           None \<Rightarrow> base_url_of_env p
                         | Some b \<Rightarrow> if b \<noteq> [] then Inr b else base_url_of_env p)
        in case wsBaseUrl of
             Inl x \<Rightarrow> h1\<lparr>connectionState := error\<rparr>
           | Inr b \<Rightarrow>
               (case buildWebSocketUrl (URL_accepts p) (Some b) (connectionParams options) of
                  Inl x \<Rightarrow> h1\<lparr>connectionState := error\<rparr>
                | Inr wsUrl \<Rightarrow>
                    if WebSocket_accepts p wsUrl
                    then h1\<lparr>wsRef := Some \<lparr>ws_url = wsUrl, readyState = CONNECTING, sent = []\<rparr>\<rparr>
                    else h1\<lparr>connectionState := error\<rparr>))"

text \<open>The socket opens and \<^verbatim>\<open>onopen\<close> runs; \<open>now\<close> is \<^verbatim>\<open>new Date()\<close>.\<close>

definition onopen :: "string \<Rightarrow> WebSocketOptions \<Rightarrow> hook \<Rightarrow> hook" where
  "onopen now options h =
     (let h1 = h\<lparr>wsRef := map_option (\<lambda>ws. ws\<lparr>readyState := OPEN\<rparr>) (wsRef h),
                 isConnected := True, connectionState := connected,
                 stats := (stats h)\<lparr>lastConnectedAt := Some now\<rparr>,
                 reconnectAttemptsRef := 0\<rparr>;
          h2 = startHeartbeat options h1
      in h2\<lparr>calls := calls h2 @ [onConnect]\<rparr>)"

text \<open>
  \<^verbatim>\<open>onmessage\<close>. The \<^verbatim>\<open>catch\<close> counts a validation error and keeps what was set before
  the throw.
\<close>

definition onmessage :: "string \<Rightarrow> hook \<Rightarrow> hook" where
  "onmessage data h =
     (case parseWebSocketMessage data of
        None \<Rightarrow> h\<lparr>stats := (stats h)\<lparr>validationErrors := validationErrors (stats h) + 1\<rparr>\<rparr>
      | Some message \<Rightarrow>
          let h1 = h\<lparr>lastMessage := Some message,
                      stats := (stats h)\<lparr>messagesReceived := messagesReceived (stats h) + 1\<rparr>\<rparr>;
              handled =
                (if own_prop message ''type'' = JStr (MessageType_value ERROR) then
                   (case extractErrorDetails message of
                      Inl x \<Rightarrow> Inl x
                    | Inr errorDetails \<Rightarrow>
                        if isValidationError message then
                          Inr (h1\<lparr>stats := (stats h1)\<lparr>validationErrors := validationErrors (stats h1) + 1\<rparr>,
                                   calls := calls h1 @ [onValidationError (own_prop errorDetails ''error'')
                                                                          (own_prop errorDetails ''details'')]\<rparr>)
                        else if isHandlerError message then
                          Inr (h1\<lparr>stats := (stats h1)\<lparr>handlerErrors := handlerErrors (stats h1) + 1\<rparr>\<rparr>)
                        else Inr h1)
                 else Inr h1)
          in case handled of
               Inl x \<Rightarrow> h1\<lparr>stats := (stats h1)\<lparr>validationErrors := validationErrors (stats h1) + 1\<rparr>\<rparr>
             | Inr h2 \<Rightarrow>
                 if own_prop message ''type'' \<noteq> JStr (MessageType_value HEARTBEAT)
                 then h2\<lparr>calls := calls h2 @ [onMessage message]\<rparr>
                 else h2)"

text \<open>The socket closes and \<^verbatim>\<open>onclose\<close> runs.\<close>

definition onclose :: "string \<Rightarrow> WebSocketOptions \<Rightarrow> hook \<Rightarrow> hook" where
  "onclose now options h =
     (let h1 = h\<lparr>wsRef := map_option (\<lambda>ws. ws\<lparr>readyState := CLOSED\<rparr>) (wsRef h),
                 isConnected := False, connectionState := disconnected,
                 stats := (stats h)\<lparr>lastDisconnectedAt := Some now\<rparr>\<rparr>;
          h2 = stopHeartbeat h1;
          h3 = h2\<lparr>calls := calls h2 @ [onDisconnect]\<rparr>
      in if shouldReconnectRef h3 \<and> reconnectAttemptsRef h3 < maxReconnectAttempts_of options then
           h3\<lparr>reconnectAttemptsRef := reconnectAttemptsRef h3 + 1,
              stats := (stats h3)\<lparr>reconnectAttempts := reconnectAttempts (stats h3) + 1\<rparr>,
              reconnectTimeoutRef := Some (reconnectInterval_of options)\<rparr>
         else h3)"

definition onerror :: "hook \<Rightarrow> hook" where
  "onerror h = h\<lparr>connectionState := error, calls := calls h @ [onError]\<rparr>"

text \<open>\<^verbatim>\<open>disconnect\<close>: the socket is closed and the ref lets go of it.\<close>

definition disconnect :: "hook \<Rightarrow> hook" where
  "disconnect h =
     (let h1 = h\<lparr>shouldReconnectRef := False, reconnectTimeoutRef := None\<rparr>;
          h2 = stopHeartbeat h1
      in h2\<lparr>wsRef := None, isConnected := False, connectionState := disconnected\<rparr>)"

text \<open>\<^verbatim>\<open>reconnect\<close>: the connect it schedules runs 100 ms later.\<close>

definition reconnect :: "hook \<Rightarrow> hook" where
  "reconnect h =
     (let h1 = disconnect h
      in h1\<lparr>shouldReconnectRef := True, reconnectAttemptsRef := 0, pendingConnects := pendingConnects h1 + 1\<rparr>)"

text \<open>
  The first effect (lines 313 to 322) and its cleanup. Its dependencies are \<^verbatim>\<open>connect\<close>
  and \<^verbatim>\<open>disconnect\<close>: it runs at the first commit, and again, after its cleanup, at
  every commit for which \<^verbatim>\<open>connect\<close> is a new function, which it is when the caller
  passes options or callbacks of a new identity.
\<close>

definition connect_effect :: "platform \<Rightarrow> WebSocketOptions \<Rightarrow> hook \<Rightarrow> hook" where
  "connect_effect p options h = connect p options (h\<lparr>shouldReconnectRef := True\<rparr>)"

definition connect_cleanup :: "hook \<Rightarrow> hook" where
  "connect_cleanup h = disconnect (h\<lparr>shouldReconnectRef := False\<rparr>)"

text \<open>
  The second effect (lines 324 to 329), on the \<^verbatim>\<open>isConnected\<close> of the render it belongs
  to.
\<close>

definition reconnect_effect :: "bool \<Rightarrow> hook \<Rightarrow> hook" where
  "reconnect_effect rendered h = (if rendered then reconnect h else h)"

text \<open>
  A render and its commit. The render reads \<^verbatim>\<open>url\<close> and \<^verbatim>\<open>params\<close> for the dependency
  list of the second effect and throws a ReferenceError when they are unbound; then no
  effect runs. Otherwise the cleanup of the first effect and the first effect run when
  its dependencies have changed (\<open>fresh\<close>: \<^verbatim>\<open>connect\<close> is a new function), and the second
  effect runs when \<^verbatim>\<open>isConnected\<close> or \<^verbatim>\<open>reconnect\<close> has changed; at the first commit
  both run.
\<close>

definition commit :: "platform \<Rightarrow> WebSocketOptions \<Rightarrow> bool \<Rightarrow> hook \<Rightarrow> js_error + hook" where
  "commit p options fresh h =
     (if \<not> url_params_bound p then Inl ReferenceError
      else
        let rendered = isConnected h;
            h1 = (if committed h = None then connect_effect p options h
                  else if fresh then connect_effect p options (connect_cleanup h)
                  else h);
            h2 = (if committed h = None \<or> fresh \<or> committed h \<noteq> Some rendered
                  then reconnect_effect rendered h1 else h1)
        in Inr (h2\<lparr>committed := Some rendered\<rparr>))"

text \<open>
  \<^verbatim>\<open>sendMessage\<close> and \<^verbatim>\<open>sendRawMessage\<close>: the boolean returned and the hook after the
  call. An error thrown in the \<^verbatim>\<open>try\<close>, by \<^verbatim>\<open>JSON.stringify\<close> or by \<^verbatim>\<open>send\<close>, is
  caught and answered \<^verbatim>\<open>false\<close>.
\<close>

definition sendMessage :: "env \<Rightarrow> MessageType \<Rightarrow> (string \<times> jsvalue) list \<Rightarrow> hook \<Rightarrow> bool \<times> hook" where
  "sendMessage e type data h =
     (case wsRef h of
        None \<Rightarrow> (False, h)
      | Some ws \<Rightarrow>
          if readyState ws \<noteq> OPEN then (False, h)
          else
            (let message = createStandardMessage e type data None
             in case JSON_stringify message of
                  Inl x \<Rightarrow> (False, h)
                | Inr text \<Rightarrow>
                    (case ws_send ws (DOMString text) of
                       Inl x \<Rightarrow> (False, h)
                     | Inr ws' \<Rightarrow>
                         (True, h\<lparr>wsRef := Some ws',
                                  stats := (stats h)\<lparr>messagesSent := messagesSent (stats h) + 1\<rparr>\<rparr>))))"

definition sendRawMessage :: "jsvalue \<Rightarrow> hook \<Rightarrow> bool \<times> hook" where
  "sendRawMessage message h =
     (case wsRef h of
        None \<Rightarrow> (False, h)
      | Some ws \<Rightarrow>
          if readyState ws \<noteq> OPEN then (False, h)
          else if \<not> validateMessage message then (False, h)
          else
            (case JSON_stringify message of
               Inl x \<Rightarrow> (False, h)
             | Inr text \<Rightarrow>
                 (case ws_send ws (DOMString text) of
                    Inl x \<Rightarrow> (False, h)
                  | Inr ws' \<Rightarrow>
                      (True, h\<lparr>wsRef := Some ws',
                               stats := (stats h)\<lparr>messagesSent := messagesSent (stats h) + 1\<rparr>\<rparr>))))"

text \<open>
  What can happen to a hook: React commits a render (\<open>Commit fresh\<close>, \<open>fresh\<close> when the
  caller has passed options or callbacks of a new identity) or unmounts the component, the
  platform fires an event of the socket the ref holds, or of a socket the hook made and
  has let go of (\<^verbatim>\<open>disconnect\<close> drops the socket it closes, and \<^verbatim>\<open>connect\<close> puts a new
  socket over one that is not open; the handlers stay on the old one and work on the same
  refs and state), one of the three timers of the hook fires (the heartbeat interval, the
  reconnect delay set by \<^verbatim>\<open>onclose\<close>, the 100 ms of \<^verbatim>\<open>reconnect\<close>), or the caller
  calls what the hook returned. A run applies events in order. A render that throws before the first commit leaves the hook as it was, never
  mounted; one that throws later unmounts the component, and the cleanup runs. An error
  that leaves a timer callback leaves the hook as it was.
\<close>

datatype event =
    Commit bool
  | Unmount
  | SocketOpen string
  | SocketMessage string
  | SocketClose string
  | SocketError
  | ReleasedOpen string
  | ReleasedMessage string
  | ReleasedClose string
  | ReleasedError
  | HeartbeatTimer string env
  | ReconnectTimer
  | ReconnectDelay
  | CallDisconnect
  | CallReconnect
  | CallSendMessage env MessageType "(string \<times> jsvalue) list"
  | CallSendRawMessage jsvalue

fun step :: "platform \<Rightarrow> WebSocketOptions \<Rightarrow> hook \<Rightarrow> event \<Rightarrow> hook" where
  "step p options h (Commit fresh) =
     (case commit p options fresh h of
        Inl x \<Rightarrow> if committed h = None then h else connect_cleanup h
      | Inr h' \<Rightarrow> h')"
| "step p options h Unmount = connect_cleanup h"
| "step p options h (SocketOpen now) = onopen now options h"
| "step p options h (SocketMessage data) = onmessage data h"
| "step p options h (SocketClose now) = onclose now options h"
| "step p options h SocketError = onerror h"
| "step p options h (ReleasedOpen now) = (onopen now options h)\<lparr>wsRef := wsRef h\<rparr>"
| "step p options h (ReleasedMessage data) = onmessage data h"
| "step p options h (ReleasedClose now) = (onclose now options h)\<lparr>wsRef := wsRef h\<rparr>"
| "step p options h ReleasedError = onerror h"
| "step p options h (HeartbeatTimer client_time e) =
     (if heartbeatTimeoutRef h = None then h
      else case sendHeartbeat client_time e h of Inl x \<Rightarrow> h | Inr h' \<Rightarrow> h')"
| "step p options h ReconnectTimer =
     (if reconnectTimeoutRef h = None then h
      else connect p options (h\<lparr>reconnectTimeoutRef := None\<rparr>))"
| "step p options h ReconnectDelay =
     (if pendingConnects h = 0 then h
      else connect p options (h\<lparr>pendingConnects := pendingConnects h - 1\<rparr>))"
| "step p options h CallDisconnect = disconnect h"
| "step p options h CallReconnect = reconnect h"
| "step p options h (CallSendMessage e type data) = snd (sendMessage e type data h)"
| "step p options h (CallSendRawMessage message) = snd (sendRawMessage message h)"

definition run :: "platform \<Rightarrow> WebSocketOptions \<Rightarrow> hook \<Rightarrow> event list \<Rightarrow> hook" where
  "run p options h evs = foldl (step p options) h evs"


text \<open>
  A hook whose socket has just opened, the options of a caller who sets none, and a platform
  that takes the base \<^verbatim>\<open>ws://localhost:8000\<close> and has \<^verbatim>\<open>url\<close> and \<^verbatim>\<open>params\<close> bound.
\<close>

definition open_hook :: hook where
  "open_hook = initial_hook\<lparr>wsRef := Some \<lparr>ws_url = \<lparr>href_base = ''ws://localhost:8000'', pathname = ''/ws'',
        searchParams = [(''user_id'', ''user123''), (''project_id'', ''proj456'')]\<rparr>,
        readyState = OPEN, sent = []\<rparr>, isConnected := True, connectionState := connected,
        committed := Some False\<rparr>"

definition default_options :: WebSocketOptions where
  "default_options =
     \<lparr>connectionParams = \<lparr>user_id = ''user123'', project_id = ''proj456'', workflow_id = None\<rparr>,
      baseUrl = None, reconnectInterval = None, maxReconnectAttempts = None, heartbeatInterval = None\<rparr>"

definition local_platform :: platform where
  "local_platform =
     \<lparr>URL_accepts = (\<lambda>b. b = ''ws://localhost:8000''),
      WebSocket_accepts = (\<lambda>u. href_base u = ''ws://localhost:8000''),
      base_url_of_env = Inr ''ws://localhost:8000'',
      url_params_bound = True\<rparr>"

section \<open>The workflow engine\<close>

text \<open>
  Modelled from the spec: the workflow thread of section 3 and the engine of section 4.5
  (the source, \<^verbatim>\<open>backend/app/libs/langgraph_workflow.py\<close>, is not among the files; the
  client only carries \<^verbatim>\<open>iterationCount\<close> and \<^verbatim>\<open>maxIterations: 3\<close> in its state).
  The time stamps of errors and checkpoints are left out.
\<close>

datatype workflow_status = running | paused_for_review | completed | failed

text \<open>
  Modelled from the spec: what a step executor returns (section 4.4). The next step
  \<open>None\<close> is the terminal marker.
\<close>

datatype step_outcome =
    StepResult "string option" "(string \<times> jsvalue) list"
  | NeedsReview string jsvalue "string list"
  | StepFailure string

text \<open>Modelled from the spec: the WorkflowThread of section 3.\<close>

record WorkflowThread =
  thread_id :: string
  current_step :: "string option"
  completed_steps :: "string list"
  status :: workflow_status
  progress_percent :: nat
  payload :: "(string \<times> jsvalue) list"
  iteration_count :: nat
  max_iterations :: nat
  errors :: "(string \<times> string) list"
  warnings :: "(string \<times> string) list"

datatype hitl_status = hitl_pending | hitl_approved | hitl_rejected | hitl_timed_out

text \<open>Modelled from the spec: the HITLCheckpointRecord of section 3.\<close>

record HITLCheckpointRecord =
  checkpoint_id :: string
  hitl_thread_id :: string
  checkpoint_type :: string
  hitl_status :: hitl_status
  agent_recommendations :: "string list"
  checkpoint_data :: jsvalue

text \<open>
  Modelled from the spec: an engine with its Checkpoint Store (the snapshots of the thread,
  the sequence number of a snapshot being its index) and its HITL records.
\<close>

record engine =
  thread :: WorkflowThread
  checkpoints :: "WorkflowThread list"
  hitl_records :: "HITLCheckpointRecord list"

text \<open>Modelled from the spec: \<^verbatim>\<open>save\<close> of section 4.3 appends a snapshot.\<close>

definition save :: "engine \<Rightarrow> engine" where
  "save st = st\<lparr>checkpoints := checkpoints st @ [thread st]\<rparr>"

text \<open>
  Modelled from the spec: the Step Executor Registry of section 4.4, a finite list of
  registrations; \<^verbatim>\<open>resolve\<close> is \<open>map_of\<close>, and \<open>None\<close> is \<^verbatim>\<open>Unregistered\<close>.
\<close>

type_synonym registry = "(string \<times> ((string \<times> jsvalue) list \<Rightarrow> step_outcome)) list"

text \<open>Modelled from the spec: a failure appends to \<open>errors\<close> and is terminal (section 4.5).\<close>

definition fail_thread :: "string \<Rightarrow> string \<Rightarrow> WorkflowThread \<Rightarrow> WorkflowThread" where
  "fail_thread name reason t = t\<lparr>errors := errors t @ [(name, reason)], status := failed\<rparr>"

text \<open>
  Modelled from the spec: on a StepResult the patch is merged into the payload, the step is
  appended to \<open>completed_steps\<close>, \<open>current_step\<close> advances and the progress is
  \<^verbatim>\<open>len(completed_steps) / total_known_steps\<close> in percent, at most 100. \<open>iteration_count\<close>
  is the number of times the step just completed has been completed.
\<close>

definition complete_step ::
    "registry \<Rightarrow> string \<Rightarrow> string option \<Rightarrow> (string \<times> jsvalue) list \<Rightarrow> WorkflowThread \<Rightarrow> WorkflowThread" where
  "complete_step reg name next patch t =
     t\<lparr>payload := foldl (\<lambda>acc (k, v). put k v acc) (payload t) patch,
       completed_steps := completed_steps t @ [name],
       current_step := next,
       iteration_count := count_list (completed_steps t @ [name]) name,
       progress_percent := min 100 (100 * length (completed_steps t @ [name]) div length (remdups (map fst reg)))\<rparr>"

text \<open>
  Modelled from the spec: a NeedsReview creates a pending record, unless the thread has one
  (\<^verbatim>\<open>DuplicatePending\<close>), and pauses the thread (sections 4.5 and 4.6).
\<close>

definition request_review :: "string \<Rightarrow> string \<Rightarrow> jsvalue \<Rightarrow> string list \<Rightarrow> engine \<Rightarrow> engine" where
  "request_review name ty data recs st =
     (if \<exists>r \<in> set (hitl_records st). hitl_thread_id r = thread_id (thread st) \<and> hitl_status r = hitl_pending
      then st\<lparr>thread := fail_thread name ''DuplicatePending'' (thread st)\<rparr>
      else st\<lparr>thread := (thread st)\<lparr>status := paused_for_review\<rparr>,
              hitl_records := hitl_records st @
                [\<lparr>checkpoint_id = ''checkpoint_'' @ show_nat (length (hitl_records st)),
                  hitl_thread_id = thread_id (thread st), checkpoint_type = ty, hitl_status = hitl_pending,
                  agent_recommendations = recs, checkpoint_data = data\<rparr>]\<rparr>)"

text \<open>The smaller the more a registered step has been completed; the step loop decreases it.\<close>

definition iterations_left :: "registry \<Rightarrow> WorkflowThread \<Rightarrow> nat" where
  "iterations_left reg t =
     (\<Sum>k \<in> set (map fst reg). Suc (max_iterations t) - count_list (completed_steps t) k)"

lemma count_list_snoc: "count_list (xs @ [x]) k = count_list xs k + (if k = x then 1 else 0)"
  by (induction xs) auto

lemma iterations_left_complete_step:
  assumes "map_of reg name = Some ex"
    and "\<not> max_iterations t < count_list (completed_steps t @ [name]) name"
  shows "iterations_left reg (complete_step reg name next patch t) < iterations_left reg t"
proof -
  have mem: "name \<in> set (map fst reg)" using assms(1) by (metis map_of_SomeD set_zip_leftD zip_map_fst_snd)
  let ?f = "\<lambda>k. Suc (max_iterations t) - count_list (completed_steps t @ [name]) k"
  let ?g = "\<lambda>k. Suc (max_iterations t) - count_list (completed_steps t) k"
  have le: "\<forall>k \<in> set (map fst reg). ?f k \<le> ?g k" by (auto simp add: count_list_snoc)
  have lt: "?f name < ?g name" using assms(2) by (simp add: count_list_snoc)
  have "sum ?f (set (map fst reg)) < sum ?g (set (map fst reg))"
    by (rule sum_strict_mono_ex1) (use le lt mem in auto)
  then show ?thesis by (simp add: iterations_left_def complete_step_def)
qed

text \<open>
  Modelled from the spec: the step loop of section 4.5 with the iteration bound, checked as
  soon as the step is appended: a name that then appears more than \<open>max_iterations\<close>
  times fails the workflow with \<^verbatim>\<open>IterationLimitExceeded\<close>. A checkpoint is saved at
  every step boundary.
\<close>

function step_loop :: "registry \<Rightarrow> engine \<Rightarrow> engine" where
  "step_loop reg st =
     (if status (thread st) \<noteq> running then st
      else
        case current_step (thread st) of
          None \<Rightarrow> save (st\<lparr>thread := (thread st)\<lparr>status := completed\<rparr>\<rparr>)
        | Some name \<Rightarrow>
            (case map_of reg name of
               None \<Rightarrow> save (st\<lparr>thread := fail_thread name ''Unregistered'' (thread st)\<rparr>)
             | Some executor \<Rightarrow>
                 (case executor (payload (thread st)) of
                    StepFailure reason \<Rightarrow> save (st\<lparr>thread := fail_thread name reason (thread st)\<rparr>)
                  | NeedsReview ty data recs \<Rightarrow> save (request_review name ty data recs st)
                  | StepResult next patch \<Rightarrow>
                      if max_iterations (thread st) < count_list (completed_steps (thread st) @ [name]) name
                      then save (st\<lparr>thread := fail_thread name ''IterationLimitExceeded''
                                     (complete_step reg name next patch (thread st))\<rparr>)
                      else if next = None
                      then save (save (st\<lparr>thread := complete_step reg name next patch (thread st)\<rparr>)
                                   \<lparr>thread := (complete_step reg name next patch (thread st))\<lparr>status := completed\<rparr>\<rparr>)
                      else step_loop reg (save (st\<lparr>thread := complete_step reg name next patch (thread st)\<rparr>)))))"
  by pat_completeness auto
termination
proof (relation "measure (\<lambda>(reg, st). iterations_left reg (thread st))", goal_cases)
  case 1
  then show ?case by simp
next
  case (2 reg st name executor nxt patch)
  then show ?case
    using iterations_left_complete_step [of reg name executor "thread st" nxt patch]
    by (simp add: save_def)
qed

declare step_loop.simps [simp del]

text \<open>Modelled from the spec: \<^verbatim>\<open>start\<close> of section 4.5 persists checkpoint 0 and runs the loop.\<close>

definition start :: "registry \<Rightarrow> string \<Rightarrow> string \<Rightarrow> nat \<Rightarrow> (string \<times> jsvalue) list \<Rightarrow> engine" where
  "start reg tid first_step max_iter initial_payload =
     step_loop reg (save \<lparr>thread = \<lparr>thread_id = tid, current_step = Some first_step, completed_steps = [],
                                    status = running, progress_percent = 0, payload = initial_payload,
                                    iteration_count = 0, max_iterations = max_iter, errors = [], warnings = []\<rparr>,
                          checkpoints = [], hitl_records = []\<rparr>)"




section \<open>Predicates of the statements\<close>

text \<open>An array, and a string that is not empty.\<close>

fun is_array :: "jsvalue \<Rightarrow> bool" where
  "is_array (JArr xs) = True"
| "is_array v = False"

fun is_nonempty_string :: "jsvalue \<Rightarrow> bool" where
  "is_nonempty_string (JStr s) = (s \<noteq> [])"
| "is_nonempty_string v = False"

text \<open>
  The decoder as the specification words it: it fails when the text is no JSON, when
  \<open>type\<close> is absent or not a string, or when \<open>data\<close> is absent or not a mapping.
\<close>

definition spec_decode_fails :: "string \<Rightarrow> bool" where
  "spec_decode_fails s =
     (case JSON_parse s of
        None \<Rightarrow> True
      | Some v \<Rightarrow> typeof (own_prop v ''type'') \<noteq> ''string'' \<or> \<not> is_record (own_prop v ''data''))"

text \<open>What may follow a number for the digits before it to be all of the literal.\<close>

definition ends_number :: "string \<Rightarrow> bool" where
  "ends_number r = (r = [] \<or> (\<not> is_digit (hd r) \<and> hd r \<notin> set ''.eE''))"

text \<open>The first character of a printed value.\<close>

definition starts_value :: "char \<Rightarrow> bool" where
  "starts_value c = (c \<in> set ''{[tfn-'' \<or> c = CHR 0x22 \<or> is_digit c)"

section \<open>The JSON reader inverts the printer\<close>

subsection \<open>Digits\<close>

lemma digit_cases:
  "d < 10 \<Longrightarrow> d = 0 \<or> d = 1 \<or> d = 2 \<or> d = 3 \<or> d = 4 \<or> d = 5 \<or> d = 6 \<or> d = 7 \<or> d = 8 \<or> d = (9 :: nat)"
  by arith

lemma of_char_digit_char: "d < 10 \<Longrightarrow> (of_char (digit_char d) :: nat) = 48 + d"
  using digit_cases [of d] by (auto simp add: digit_char_def)

lemma digit_val_digit_char: "d < 10 \<Longrightarrow> digit_val (digit_char d) = d"
  by (simp add: digit_val_def of_char_digit_char)

lemma is_digit_digit_char: "d < 10 \<Longrightarrow> is_digit (digit_char d)"
  using digit_cases [of d] by (auto simp add: digit_char_def is_digit_def)

lemma digit_char_zero: "d < 10 \<Longrightarrow> digit_char d = CHR ''0'' \<longleftrightarrow> d = 0"
  using digit_cases [of d] by (auto simp add: digit_char_def)

lemma read_nat_snoc: "read_nat (s @ [c]) = 10 * read_nat s + digit_val c"
  by (simp add: read_nat_def)

lemma read_nat_show_nat: "read_nat (show_nat n) = n"
proof (induction n rule: show_nat.induct)
  case (1 n)
  show ?case
  proof (cases "n < 10")
    case True
    then show ?thesis by (simp add: show_nat.simps [of n] read_nat_def digit_val_digit_char)
  next
    case False
    with 1 show ?thesis
      by (simp add: show_nat.simps [of n] read_nat_snoc digit_val_digit_char)
  qed
qed

lemma show_nat_inj: "show_nat a = show_nat b \<Longrightarrow> a = b"
  by (metis read_nat_show_nat)

lemma show_nat_all_digits: "c \<in> set (show_nat n) \<Longrightarrow> is_digit c"
proof (induction n rule: show_nat.induct)
  case (1 n)
  show ?case
  proof (cases "n < 10")
    case True
    with 1(2) show ?thesis by (simp add: show_nat.simps [of n] is_digit_digit_char)
  next
    case False
    with 1 show ?thesis
      by (auto simp add: show_nat.simps [of n] is_digit_digit_char)
  qed
qed

lemma show_nat_nonempty: "show_nat n \<noteq> []"
  by (simp add: show_nat.simps [of n])

lemma hd_show_nat_zero: "hd (show_nat n) = CHR ''0'' \<Longrightarrow> n = 0"
proof (induction n rule: show_nat.induct)
  case (1 n)
  show ?case
  proof (cases "n < 10")
    case True
    with 1(2) show ?thesis by (simp add: show_nat.simps [of n] digit_char_zero)
  next
    case False
    with 1(2) have "hd (show_nat (n div 10)) = CHR ''0''"
      by (simp add: show_nat.simps [of n] show_nat_nonempty)
    with 1(1) False have "n div 10 = 0" by simp
    with False show ?thesis by simp
  qed
qed

lemma is_digit_hd_show_nat: "is_digit (hd (show_nat n))"
  using show_nat_all_digits [of "hd (show_nat n)" n] show_nat_nonempty [of n] by simp

lemma show_nat_lead: "hd (show_nat n) = CHR ''0'' \<Longrightarrow> show_nat n = ''0''"
  using hd_show_nat_zero [of n] by (auto simp add: show_nat.simps [of 0] digit_char_def)

lemma hd_show_nat_not_minus: "hd (show_nat n) \<noteq> CHR ''-''"
  using is_digit_hd_show_nat [of n] by (auto simp add: is_digit_def)

lemma show_nat_Cons: "\<exists>c cs. show_nat n = c # cs \<and> is_digit c"
  using show_nat_nonempty [of n] is_digit_hd_show_nat [of n] by (cases "show_nat n") auto

lemma while_all:
  assumes "\<And>x. x \<in> set xs \<Longrightarrow> P x" "r = [] \<or> \<not> P (hd r)"
  shows "takeWhile P (xs @ r) = xs" "dropWhile P (xs @ r) = r"
proof -
  have "takeWhile P r = []" "dropWhile P r = r" using assms(2) by (cases r; simp)+
  with assms(1) show "takeWhile P (xs @ r) = xs" "dropWhile P (xs @ r) = r"
    by (simp_all add: takeWhile_append2 dropWhile_append2)
qed

lemma show_fixed_digits: "c \<in> set (show_fixed k n) \<Longrightarrow> is_digit c"
  by (induction k arbitrary: n) (auto simp add: is_digit_digit_char)

lemma length_show_fixed [simp]: "length (show_fixed k n) = k"
  by (induction k arbitrary: n) simp_all

lemma read_nat_append: "read_nat (xs @ ys) = read_nat xs * 10 ^ length ys + read_nat ys"
proof (induction ys rule: rev_induct)
  case Nil
  then show ?case by (simp add: read_nat_def)
next
  case (snoc y ys)
  have "read_nat (xs @ ys @ [y]) = 10 * read_nat (xs @ ys) + digit_val y"
    using read_nat_snoc [of "xs @ ys" y] by simp
  also have "\<dots> = 10 * (read_nat xs * 10 ^ length ys + read_nat ys) + digit_val y"
    by (simp add: snoc.IH)
  also have "\<dots> = read_nat xs * 10 ^ length (ys @ [y]) + read_nat (ys @ [y])"
    by (simp add: read_nat_snoc algebra_simps)
  finally show ?case by simp
qed

lemma read_nat_show_fixed: "read_nat (show_fixed k n) = n mod 10 ^ k"
proof (induction k arbitrary: n)
  case 0
  then show ?case by (simp add: read_nat_def)
next
  case (Suc k)
  have "read_nat (show_fixed (Suc k) n) = 10 * (n div 10 mod 10 ^ k) + n mod 10"
    by (simp add: read_nat_snoc Suc.IH digit_val_digit_char)
  also have "\<dots> = n mod (10 * 10 ^ k)" by (simp add: mod_mult2_eq)
  finally show ?case by simp
qed

lemma read_nat_show_unsigned_digits: "read_nat (show_nat (a div 10 ^ k) @ show_fixed k a) = a"
  using div_mult_mod_eq [of a "10 ^ k"]
  by (simp add: read_nat_append read_nat_show_nat read_nat_show_fixed)

lemma parse_int_part_show_nat:
  assumes "r = [] \<or> \<not> is_digit (hd r)"
  shows "parse_int_part (show_nat n @ r) = Some (show_nat n, r)"
proof -
  obtain c cs where c: "show_nat n = c # cs" "is_digit c" using show_nat_Cons by blast
  show ?thesis
  proof (cases "c = CHR ''0''")
    case True
    with c(1) have "show_nat n = ''0''" using show_nat_lead [of n] by simp
    then show ?thesis by (simp add: parse_int_part_def)
  next
    case False
    have w: "takeWhile is_digit (show_nat n @ r) = show_nat n" "dropWhile is_digit (show_nat n @ r) = r"
      using while_all [of "show_nat n" is_digit r] show_nat_all_digits assms by blast+
    have "parse_int_part (c # cs @ r) = Some (takeWhile is_digit (c # cs @ r), dropWhile is_digit (c # cs @ r))"
      using False c(2) by (simp add: parse_int_part_def)
    with w show ?thesis by (simp add: c(1))
  qed
qed

lemma parse_fraction_none: "r = [] \<or> hd r \<noteq> CHR ''.'' \<Longrightarrow> parse_fraction r = Some ([], r)"
  by (cases r) (auto simp add: parse_fraction_def)

lemma parse_exponent_none: "r = [] \<or> hd r \<notin> set ''eE'' \<Longrightarrow> parse_exponent r = Some (0, r)"
  by (cases r) (auto simp add: parse_exponent_def)

lemma parse_fraction_show_fixed:
  assumes "0 < k" "r = [] \<or> \<not> is_digit (hd r)"
  shows "parse_fraction (CHR ''.'' # show_fixed k a @ r) = Some (show_fixed k a, r)"
proof -
  have w: "takeWhile is_digit (show_fixed k a @ r) = show_fixed k a" "dropWhile is_digit (show_fixed k a @ r) = r"
    using while_all [of "show_fixed k a" is_digit r] show_fixed_digits assms(2) by blast+
  have "show_fixed k a \<noteq> []" using assms(1) length_show_fixed [of k a] by (metis length_0_conv less_numeral_extra(3))
  with w show ?thesis by (simp add: parse_fraction_def)
qed

lemma norm_normal: "k = 0 \<or> a mod 10 \<noteq> 0 \<Longrightarrow> norm a k = (a, k)"
  by (cases k) auto

lemma parse_unsigned_show_unsigned:
  assumes n: "k = 0 \<or> a mod 10 \<noteq> 0" and r: "ends_number r"
  shows "parse_unsigned (show_unsigned a k @ r) = Some ((a, k), r)"
proof (cases "k = 0")
  case True
  from r have e: "r = [] \<or> \<not> is_digit (hd r)" "r = [] \<or> hd r \<noteq> CHR ''.''" "r = [] \<or> hd r \<notin> set ''eE''"
    by (auto simp add: ends_number_def)
  show ?thesis
    using parse_int_part_show_nat [OF e(1), of a] parse_fraction_none [OF e(2)] parse_exponent_none [OF e(3)]
    by (simp add: parse_unsigned_def show_unsigned_def True decimal_def read_nat_show_nat)
next
  case False
  then have k: "0 < k" by simp
  from r have e: "r = [] \<or> \<not> is_digit (hd r)" "r = [] \<or> hd r \<notin> set ''eE''"
    by (auto simp add: ends_number_def)
  have ip: "parse_int_part (show_nat (a div 10 ^ k) @ CHR ''.'' # show_fixed k a @ r)
      = Some (show_nat (a div 10 ^ k), CHR ''.'' # show_fixed k a @ r)"
    by (rule parse_int_part_show_nat) (simp add: is_digit_def)
  have d: "decimal a k 0 = (a, k)"
    using k n by (simp add: decimal_def norm_normal)
  show ?thesis
    using ip parse_fraction_show_fixed [OF k e(1), of a] parse_exponent_none [OF e(2)] False
    by (simp add: parse_unsigned_def show_unsigned_def read_nat_show_unsigned_digits d)
qed

lemma show_unsigned_Cons: "\<exists>c cs. show_unsigned a k = c # cs \<and> is_digit c"
  using show_nat_Cons [of a] show_nat_Cons [of "a div 10 ^ k"] by (auto simp add: show_unsigned_def)

lemma lowest_form_nat: "k = 0 \<or> m mod 10 \<noteq> 0 \<Longrightarrow> k = 0 \<or> nat \<bar>m\<bar> mod 10 \<noteq> 0" for m :: int
proof -
  have "nat \<bar>m\<bar> mod 10 = 0 \<Longrightarrow> m mod 10 = 0"
  proof -
    assume "nat \<bar>m\<bar> mod 10 = 0"
    then have "(10::nat) dvd nat \<bar>m\<bar>" by presburger
    then have "int 10 dvd int (nat \<bar>m\<bar>)" by (simp only: int_dvd_int_iff)
    then have "(10::int) dvd m" by simp
    then show ?thesis by presburger
  qed
  then show "k = 0 \<or> m mod 10 \<noteq> 0 \<Longrightarrow> k = 0 \<or> nat \<bar>m\<bar> mod 10 \<noteq> 0" by blast
qed

lemma parse_number_show_decimal:
  assumes "ends_number r" "k = 0 \<or> m mod 10 \<noteq> 0"
  shows "parse_number (show_decimal m k @ r) = Some (JNum m k, r)"
proof (cases "m < 0")
  case False
  then have a: "nat \<bar>m\<bar> = nat m" by simp
  obtain c cs where c: "show_unsigned (nat m) k = c # cs" "is_digit c" using show_unsigned_Cons by blast
  then have "c \<noteq> CHR ''-''" by (auto simp add: is_digit_def)
  with False c(1) show ?thesis
    using parse_unsigned_show_unsigned [OF lowest_form_nat [OF assms(2)] assms(1)] a
    by (simp add: show_decimal_def parse_number_def)
next
  case True
  then have a: "nat \<bar>m\<bar> = nat (- m)" by simp
  with True show ?thesis
    using parse_unsigned_show_unsigned [OF lowest_form_nat [OF assms(2)] assms(1)]
    by (simp add: show_decimal_def parse_number_def)
qed


subsection \<open>Strings\<close>

lemma hex_cases:
  "d < 16 \<Longrightarrow> d = 0 \<or> d = 1 \<or> d = 2 \<or> d = 3 \<or> d = 4 \<or> d = 5 \<or> d = 6 \<or> d = 7 \<or> d = 8 \<or> d = 9
     \<or> d = 10 \<or> d = 11 \<or> d = 12 \<or> d = 13 \<or> d = 14 \<or> d = (15 :: nat)"
  by arith

lemma hex_val_hex_char: "d < 16 \<Longrightarrow> hex_val (hex_char d) = Some (int d)"
  using hex_cases [of d] by (auto simp add: hex_char_def hex_val_def is_digit_def)

lemma hex_val_digit: "0 \<le> k \<Longrightarrow> k < 16 \<Longrightarrow> hex_val (hex_char (nat k)) = Some k"
  using hex_val_hex_char [of "nat k"] by simp

lemma hex4_control:
  assumes "(n :: nat) < 32"
  shows "hex4 (CHR ''0'') (CHR ''0'') (hex_char (n div 16)) (hex_char (n mod 16)) = Some (int n)"
proof -
  have "n div 16 < 16" "n mod 16 < 16" using assms by auto
  then have "hex_val (hex_char (n div 16)) = Some (int (n div 16))"
      "hex_val (hex_char (n mod 16)) = Some (int (n mod 16))"
    by (simp_all add: hex_val_hex_char)
  moreover have "hex_val (CHR ''0'') = Some 0" by (simp add: hex_val_def is_digit_def)
  moreover have "int (n div 16 * 16 + n mod 16) = int n" by simp
  then have "int (n div 16) * 16 + int (n mod 16) = int n"
    by (simp only: of_nat_add of_nat_mult of_nat_numeral)
  ultimately show ?thesis by (simp add: hex4_def)
qed

lemma hex_split:
  "((n div 4096 * 16 + n div 256 mod 16) * 16 + n div 16 mod 16) * 16 + n mod 16 = (n :: int)"
proof -
  have a: "n div 256 = n div 16 div 16" "n div 4096 = n div 16 div 16 div 16"
    by (simp_all add: zdiv_zmult2_eq [symmetric])
  have "n div 16 div 16 div 16 * 16 + n div 16 div 16 mod 16 = n div 16 div 16" by simp
  then have "(n div 16 div 16 div 16 * 16 + n div 16 div 16 mod 16) * 16 + n div 16 mod 16 = n div 16" by simp
  then show ?thesis unfolding a by simp
qed

lemma surrogate_split:
  assumes "0 \<le> x" "x < 64" "0 \<le> y" "y < (64 :: int)"
  shows "(0xD000 + x * 64 + y) div 4096 = 13" "(0xD000 + x * 64 + y) div 64 mod 64 = x"
    "(0xD000 + x * 64 + y) mod 64 = y"
proof -
  have k: "0 \<le> x * 64 + y" "x * 64 + y < 4096" using assms by simp_all
  have "(x * 64 + y + 13 * 4096) div 4096 = 13 + (x * 64 + y) div 4096" by (rule div_mult_self1) simp
  with k show "(0xD000 + x * 64 + y) div 4096 = 13" by (simp add: add.commute add.left_commute)
  have "(y + (832 + x) * 64) div 64 = (832 + x) + y div 64" by (rule div_mult_self1) simp
  with assms(3,4) have d: "(0xD000 + x * 64 + y) div 64 = 832 + x" by (simp add: algebra_simps)
  have "(x + 13 * 64) mod 64 = x mod 64" by (rule mod_mult_self1)
  with assms(1,2) show "(0xD000 + x * 64 + y) div 64 mod 64 = x" unfolding d by (simp add: add.commute)
  have "(y + (832 + x) * 64) mod 64 = y mod 64" by (rule mod_mult_self1)
  with assms(3,4) show "(0xD000 + x * 64 + y) mod 64 = y" by (simp add: algebra_simps)
qed

lemma hex4_escape_unit:
  assumes "0 \<le> n" "n < 65536"
  shows "hex4 (hex_char (nat (n div 4096))) (hex_char (nat (n div 256 mod 16))) (hex_char (nat (n div 16 mod 16)))
           (hex_char (nat (n mod 16))) = Some n"
proof -
  have "0 \<le> n div 4096" "n div 4096 < 16" using assms by simp_all
  then have v: "hex_val (hex_char (nat (n div 4096))) = Some (n div 4096)"
      "hex_val (hex_char (nat (n div 256 mod 16))) = Some (n div 256 mod 16)"
      "hex_val (hex_char (nat (n div 16 mod 16))) = Some (n div 16 mod 16)"
      "hex_val (hex_char (nat (n mod 16))) = Some (n mod 16)"
    by (simp_all add: hex_val_digit)
  with hex_split [of n] show ?thesis by (simp add: hex4_def)
qed

lemma code_unit_control: "(of_char c :: nat) < 32 \<Longrightarrow> code_unit (int (of_char c)) = [c]"
proof -
  assume "(of_char c :: nat) < 32"
  then have "int (of_char c) < 0x80" by simp
  moreover have "char_of (int (of_char c)) = c" by (simp add: char_of_eq_iff take_bit_of_nat)
  ultimately show ?thesis by (simp add: code_unit_def)
qed

lemma parse_chars_quote_char:
  "parse_chars (quote_char c @ rest) = map_option (\<lambda>(s, r). (c # s, r)) (parse_chars rest)"
proof (cases "c \<in> {CHR 0x22, CHR 0x5C, CHR 0x08, CHR 0x0C, CHR 0x0A, CHR 0x0D, CHR 0x09}")
  case True
  then show ?thesis by (auto simp add: quote_char_def parse_escape_def unescape_def)
next
  case False
  show ?thesis
  proof (cases "(of_char c :: nat) < 32")
    case True
    with False show ?thesis
      using hex4_control [OF True] code_unit_control [OF True] by (simp add: quote_char_def parse_escape_def)
  next
    case c: False
    with False show ?thesis by (simp add: quote_char_def)
  qed
qed

lemma parse_chars_raw:
  "128 \<le> (of_char c :: nat) \<Longrightarrow> parse_chars (c # rest) = map_option (\<lambda>(s, r). (c # s, r)) (parse_chars rest)"
  by auto

lemma parse_chars_escape_unit:
  assumes "0 \<le> n" "n < 65536"
  shows "parse_chars (escape_unit n @ rest) = map_option (\<lambda>(s, r). (code_unit n @ s, r)) (parse_chars rest)"
  using hex4_escape_unit [OF assms] by (simp add: escape_unit_def parse_escape_def)

lemma code_unit_surrogate:
  assumes "surrogate c b1 b2"
  shows "0 \<le> unit_of b1 b2" "unit_of b1 b2 < 65536" "code_unit (unit_of b1 b2) = [c, b1, b2]"
proof -
  let ?x = "(of_char b1 :: int) - 0x80" and ?y = "(of_char b2 :: int) - 0x80"
  from assms have c: "c = CHR 0xED" and x: "0x20 \<le> ?x" "?x < 0x40" and y: "0 \<le> ?y" "?y < 0x40"
    by (auto simp add: surrogate_def is_cont_def)
  have b: "0x80 + ?x = of_char b1" "0x80 + ?y = of_char b2" by simp_all
  let ?n = "0xD000 + ?x * 64 + ?y"
  from x y show "0 \<le> unit_of b1 b2" "unit_of b1 b2 < 65536" by (simp_all add: unit_of_def)
  have x0: "0 \<le> ?x" using x(1) by simp
  have d: "?n div 4096 = 13" "?n div 64 mod 64 = ?x" "?n mod 64 = ?y"
    using surrogate_split [OF x0 x(2) y] by simp_all
  have "\<not> ?n < 0x800" "\<not> ?n < 0x80" using x y by simp_all
  then have "code_unit ?n = [char_of (0xE0 + ?n div 4096), char_of (0x80 + ?n div 64 mod 64), char_of (0x80 + ?n mod 64)]"
    by (simp add: code_unit_def)
  also have "\<dots> = [char_of (237 :: int), char_of (of_char b1 :: int), char_of (of_char b2 :: int)]"
    unfolding d b by simp
  also have "\<dots> = [c, b1, b2]" by (simp add: c char_of_eq_iff)
  finally show "code_unit (unit_of b1 b2) = [c, b1, b2]" by (simp add: unit_of_def)
qed

lemma surrogate_raw:
  assumes "surrogate c b1 b2"
  shows "parse_chars (c # b1 # b2 # rest) = map_option (\<lambda>(s, r). (c # b1 # b2 # s, r)) (parse_chars rest)"
proof -
  from assms have "128 \<le> int (of_char c)" "128 \<le> int (of_char b1)" "128 \<le> int (of_char b2)"
    by (auto simp add: surrogate_def is_cont_def of_nat_of_char)
  then have "128 \<le> (of_char c :: nat)" "128 \<le> (of_char b1 :: nat)" "128 \<le> (of_char b2 :: nat)"
    by arith+
  then show ?thesis
    by (simp add: parse_chars_raw option.map_comp comp_def split_def del: parse_chars.simps)
qed

lemma parse_chars_close: "parse_chars (CHR 0x22 # r) = Some ([], r)"
  by simp

lemma low_nextD:
  assumes "low_next r"
  obtains d d1 d2 r' where "r = d # d1 # d2 # r'" "surrogate d d1 d2"
  using assms by (auto simp add: low_next_def split: list.splits)

lemma parse_chars_quoted:
  "parse_chars (quote_units s @ CHR 0x22 # r) = Some (s, r)"
proof (induction s rule: quote_units.induct)
  case (1 c b1 b2 r0)
  show ?case
  proof (cases "surrogate c b1 b2")
    case False
    with 1(3) [OF False] show ?thesis by (simp add: parse_chars_quote_char del: parse_chars.simps)
  next
    case s: True
    show ?thesis
    proof (cases "leading b1 \<and> low_next r0")
      case True
      then obtain d d1 d2 r' where r0: "r0 = d # d1 # d2 # r'" and p: "surrogate d d1 d2"
        using low_nextD by blast
      from 1(1) [OF s True] r0 have "parse_chars (quote_units r' @ CHR 0x22 # r) = Some (r', r)" by simp
      with s p r0 True show ?thesis
        by (simp add: surrogate_raw del: parse_chars.simps)
    next
      case False
      from 1(2) [OF s False] have ih: "parse_chars (quote_units r0 @ CHR 0x22 # r) = Some (r0, r)" .
      from s False have q: "quote_units (c # b1 # b2 # r0) = escape_unit (unit_of b1 b2) @ quote_units r0"
        by auto
      show ?thesis
        unfolding q using parse_chars_escape_unit [OF code_unit_surrogate(1,2) [OF s]] code_unit_surrogate(3) [OF s] ih
        by (simp del: parse_chars.simps)
    qed
  qed
next
  fix c
  show "parse_chars (quote_units [c] @ CHR 0x22 # r) = Some ([c], r)"
    using parse_chars_quote_char [of c "CHR 0x22 # r"] parse_chars_close [of r] by (simp del: parse_chars.simps)
next
  fix c v
  assume "parse_chars (quote_units [v] @ CHR 0x22 # r) = Some ([v], r)"
  then show "parse_chars (quote_units [c, v] @ CHR 0x22 # r) = Some ([c, v], r)"
    using parse_chars_quote_char [of c "quote_units [v] @ CHR 0x22 # r"] by (simp del: parse_chars.simps)
next
  case 3
  then show ?case by simp
qed


subsection \<open>Values\<close>

lemma skip_ws_Cons: "\<not> is_ws c \<Longrightarrow> skip_ws (c # r) = c # r"
  by (simp add: skip_ws_def)

lemma put_fresh: "k \<notin> fst ` set acc \<Longrightarrow> put k v acc = acc @ [(k, v)]"
  by (induction acc) auto

lemma foldl_put_distinct:
  "distinct (map fst (acc @ kvs)) \<Longrightarrow> foldl (\<lambda>acc (k, v). put k v acc) acc kvs = acc @ kvs"
proof (induction kvs arbitrary: acc)
  case Nil
  then show ?case by simp
next
  case (Cons kv kvs)
  obtain k v where kv: "kv = (k, v)" by (cases kv)
  from Cons.prems have fresh: "k \<notin> fst ` set acc" by (auto simp add: kv)
  from Cons.prems have "distinct (map fst ((acc @ [(k, v)]) @ kvs))" by (simp add: kv)
  from Cons.IH [OF this] show ?case by (simp add: kv put_fresh [OF fresh])
qed

lemma object_of_distinct: "distinct (map fst kvs) \<Longrightarrow> object_of kvs = kvs"
  using foldl_put_distinct [of "[]" kvs] by (simp add: object_of_def)

lemma serializable_defined: "serializable v \<Longrightarrow> v \<noteq> JUndefined"
  by auto

lemma filter_serializable:
  "\<forall>v \<in> set (map snd kvs). serializable v \<Longrightarrow> filter (\<lambda>(k, v). v \<noteq> JUndefined) kvs = kvs"
  by (induction kvs) (auto dest: serializable_defined)

lemma str_value_Cons: "serializable v \<Longrightarrow> \<exists>c cs. str_value v = c # cs \<and> starts_value c"
proof (cases v)
  case (JNum m k)
  obtain c cs where "show_unsigned (nat m) k = c # cs" "is_digit c" using show_unsigned_Cons by blast
  then show ?thesis by (simp add: JNum show_decimal_def starts_value_def)
qed (simp_all add: starts_value_def quote_def)

lemma starts_value_not: "starts_value c \<Longrightarrow> \<not> is_ws c \<and> c \<noteq> CHR '']'' \<and> c \<noteq> CHR ''}'' \<and> c \<noteq> CHR '',''"
  by (auto simp add: starts_value_def is_ws_def is_digit_def)

lemma ends_number_simps [simp]:
  "ends_number []" "ends_number (CHR '','' # r)" "ends_number (CHR '']'' # r)" "ends_number (CHR ''}'' # r)"
  by (simp_all add: ends_number_def is_digit_def)

lemma parse_value_Cons:
  "\<not> is_ws c \<Longrightarrow> parse_value (c # r) =
     (if c = CHR ''{'' then
        (case skip_ws r of
           [] \<Rightarrow> None
         | c1 # r1 \<Rightarrow>
             if c1 = CHR ''}'' then Some (JObj [], r1)
             else map_option (\<lambda>(kvs, r2). (JObj (object_of kvs), r2)) (parse_members r))
      else if c = CHR ''['' then
        (case skip_ws r of
           [] \<Rightarrow> None
         | c1 # r1 \<Rightarrow>
             if c1 = CHR '']'' then Some (JArr [], r1)
             else map_option (\<lambda>(vs, r2). (JArr vs, r2)) (parse_elements r))
      else if c = CHR 0x22 then map_option (\<lambda>(str, r1). (JStr str, r1)) (parse_chars r)
      else if c = CHR ''t'' then (if take 3 r = ''rue'' then Some (JBool True, drop 3 r) else None)
      else if c = CHR ''f'' then (if take 4 r = ''alse'' then Some (JBool False, drop 4 r) else None)
      else if c = CHR ''n'' then (if take 3 r = ''ull'' then Some (JNull, drop 3 r) else None)
      else parse_number (c # r))"
  by (subst parse_value.simps) (simp add: skip_ws_Cons)

lemma parse_value_number:
  assumes "ends_number r" "k = 0 \<or> m mod 10 \<noteq> 0"
  shows "parse_value (show_decimal m k @ r) = Some (JNum m k, r)"
proof -
  have "\<exists>c cs. show_decimal m k = c # cs \<and> (c = CHR ''-'' \<or> is_digit c)"
    using show_unsigned_Cons [of "nat m" k] by (cases "m < 0") (auto simp add: show_decimal_def)
  then obtain c cs where c: "show_decimal m k = c # cs" "c = CHR ''-'' \<or> is_digit c" by blast
  from c(2) have "\<not> is_ws c" "c \<notin> set ''{[tfn''" "c \<noteq> CHR 0x22"
    by (auto simp add: is_ws_def is_digit_def)
  then have "parse_value (c # cs @ r) = parse_number (c # cs @ r)"
    by (simp add: parse_value_Cons)
  then show ?thesis using parse_number_show_decimal [OF assms] c(1) by simp
qed

lemma parse_elements_join:
  assumes "vs \<noteq> []"
    and "\<And>v r. v \<in> set vs \<Longrightarrow> ends_number r \<Longrightarrow> parse_value (str_value v @ r) = Some (v, r)"
    and "\<And>v. v \<in> set vs \<Longrightarrow> serializable v"
  shows "parse_elements (join '','' (map str_value vs) @ CHR '']'' # r) = Some (vs, r)"
  using assms
proof (induction vs rule: list_nonempty_induct)
  case (single x)
  have ne: "str_value x \<noteq> []" using str_value_Cons [of x] single.prems(2) [of x] by auto
  have "parse_value (str_value x @ CHR '']'' # r) = Some (x, CHR '']'' # r)"
    by (rule single) simp_all
  then show ?case
    using ne by (subst parse_elements.simps) (simp add: skip_ws_Cons is_ws_def)
next
  case (cons x xs)
  obtain y ys where xs: "xs = y # ys" using cons.hyps by (cases xs) auto
  have ne: "str_value x \<noteq> []" using str_value_Cons [of x] cons.prems(2) [of x] by auto
  let ?rest = "join '','' (map str_value xs) @ CHR '']'' # r"
  have j: "join '','' (map str_value (x # xs)) @ CHR '']'' # r = str_value x @ CHR '','' # ?rest"
    by (simp add: xs)
  have pv: "parse_value (str_value x @ CHR '','' # ?rest) = Some (x, CHR '','' # ?rest)"
    by (rule cons.prems) simp_all
  have ih: "parse_elements ?rest = Some (xs, r)"
    using cons.IH cons.prems by simp
  show ?case
    unfolding j using ne pv ih by (subst parse_elements.simps) (simp add: skip_ws_Cons is_ws_def)
qed

lemma parse_members_join:
  assumes "kvs \<noteq> []"
    and "\<And>k v r. (k, v) \<in> set kvs \<Longrightarrow> ends_number r \<Longrightarrow> parse_value (str_value v @ r) = Some (v, r)"
    and "\<And>k v. (k, v) \<in> set kvs \<Longrightarrow> serializable v"
  shows "parse_members (join '','' (map (\<lambda>(k, v). quote k @ '':'' @ str_value v) kvs) @ CHR ''}'' # r)
           = Some (kvs, r)"
  using assms
proof (induction kvs rule: list_nonempty_induct)
  case (single kv)
  obtain k v where kv: "kv = (k, v)" by (cases kv)
  have ne: "str_value v \<noteq> []" using str_value_Cons [of v] single.prems(2) [of k v] kv by auto
  have pv: "parse_value (str_value v @ CHR ''}'' # r) = Some (v, CHR ''}'' # r)"
    by (rule single [of k]) (simp_all add: kv)
  show ?case
    using ne pv
    by (subst parse_members.simps)
      (simp add: kv quote_def skip_ws_Cons is_ws_def parse_chars_quoted)
next
  case (cons kv kvs)
  obtain k v where kv: "kv = (k, v)" by (cases kv)
  obtain y ys where kvs: "kvs = y # ys" using cons.hyps by (cases kvs) auto
  have ne: "str_value v \<noteq> []" using str_value_Cons [of v] cons.prems(2) [of k v] kv by auto
  let ?rest = "join '','' (map (\<lambda>(k, v). quote k @ '':'' @ str_value v) kvs) @ CHR ''}'' # r"
  have j: "join '','' (map (\<lambda>(k, v). quote k @ '':'' @ str_value v) (kv # kvs)) @ CHR ''}'' # r
             = quote k @ CHR '':'' # str_value v @ CHR '','' # ?rest"
    by (simp add: kvs kv)
  have pv: "parse_value (str_value v @ CHR '','' # ?rest) = Some (v, CHR '','' # ?rest)"
    by (rule cons.prems [of k]) (simp_all add: kv)
  have ih: "parse_members ?rest = Some (kvs, r)"
  proof (rule cons.IH)
    fix k' v' r'
    assume "(k', v') \<in> set kvs" "ends_number r'"
    then show "parse_value (str_value v' @ r') = Some (v', r')"
      by (intro cons.prems(1) [of k']) simp_all
  next
    fix k' v'
    assume "(k', v') \<in> set kvs"
    then show "serializable v'" by (intro cons.prems(2) [of k']) simp
  qed
  show ?case
    unfolding j using ne pv ih
    by (subst parse_members.simps)
      (simp add: kv quote_def skip_ws_Cons is_ws_def parse_chars_quoted)
qed

lemma join_Cons_starts:
  "vs \<noteq> [] \<Longrightarrow> serializable (hd vs) \<Longrightarrow> \<exists>c cs. join sep (map str_value vs) = c # cs \<and> starts_value c"
proof (cases vs)
  case Nil
  then show "vs \<noteq> [] \<Longrightarrow> serializable (hd vs) \<Longrightarrow> ?thesis" by simp
next
  case (Cons x xs)
  assume "serializable (hd vs)"
  with Cons obtain c cs where c: "str_value x = c # cs" "starts_value c" using str_value_Cons [of x] by auto
  show ?thesis
    unfolding Cons using c by (cases xs) auto
qed

lemma parse_value_str_value:
  "serializable v \<Longrightarrow> ends_number r \<Longrightarrow> parse_value (str_value v @ r) = Some (v, r)"
proof (induction v arbitrary: r)
  case JUndefined
  then show ?case by simp
next
  case JNull
  show ?case by (simp add: parse_value_Cons is_ws_def)
next
  case (JBool b)
  show ?case by (simp add: parse_value_Cons is_ws_def)
next
  case (JNum m k)
  then show ?case by (simp add: parse_value_number)
next
  case (JBigInt n)
  then show ?case by simp
next
  case (JStr s)
  show ?case by (simp add: quote_def parse_value_Cons is_ws_def parse_chars_quoted)
next
  case (JArr vs)
  show ?case
  proof (cases "vs = []")
    case True
    then show ?thesis by (simp add: parse_value_Cons is_ws_def skip_ws_Cons)
  next
    case False
    have el: "parse_elements (join '','' (map str_value vs) @ CHR '']'' # r) = Some (vs, r)"
      using JArr by (intro parse_elements_join [OF False]) auto
    have "serializable (hd vs)" using JArr.prems(1) False by (cases vs) auto
    then obtain c cs where c: "join '','' (map str_value vs) = c # cs" "starts_value c"
      using join_Cons_starts [OF False] by blast
    have sk: "skip_ws (join '','' (map str_value vs) @ CHR '']'' # r) = c # cs @ CHR '']'' # r"
      using c starts_value_not by (simp add: skip_ws_Cons)
    show ?thesis
      using el sk c(2) starts_value_not [of c]
      by (simp add: parse_value_Cons is_ws_def)
  qed
next
  case (JObj kvs)
  from JObj.prems have dist: "distinct (map fst kvs)" and ser: "\<forall>v \<in> set (map snd kvs). serializable v"
    by simp_all
  have flt: "filter (\<lambda>(k, v). v \<noteq> JUndefined) kvs = kvs" by (rule filter_serializable [OF ser])
  show ?case
  proof (cases "kvs = []")
    case True
    then show ?thesis by (simp add: parse_value_Cons is_ws_def skip_ws_Cons)
  next
    case False
    have el: "parse_members (join '','' (map (\<lambda>(k, v). quote k @ '':'' @ str_value v) kvs) @ CHR ''}'' # r)
                = Some (kvs, r)"
    proof (rule parse_members_join [OF False])
      fix k v r'
      assume "(k, v) \<in> set kvs" "ends_number r'"
      then show "parse_value (str_value v @ r') = Some (v, r')"
        using JObj.IH [of "(k, v)" v r'] ser by force
    next
      fix k v
      assume "(k, v) \<in> set kvs"
      then show "serializable v" using ser by force
    qed
    obtain kv kvs' where kvs: "kvs = kv # kvs'" using False by (cases kvs) auto
    obtain k v where kv: "kv = (k, v)" by (cases kv)
    have "\<exists>cs. join '','' (map (\<lambda>(k, v). quote k @ '':'' @ str_value v) kvs) = CHR 0x22 # cs"
      unfolding kvs kv by (cases kvs') (auto simp add: quote_def)
    then obtain cs where c: "join '','' (map (\<lambda>(k, v). quote k @ '':'' @ str_value v) kvs) = CHR 0x22 # cs"
      by blast
    have sk: "skip_ws (join '','' (map (\<lambda>(k, v). quote k @ '':'' @ str_value v) kvs) @ CHR ''}'' # r)
                = CHR 0x22 # cs @ CHR ''}'' # r"
      using c by (simp add: skip_ws_Cons is_ws_def)
    show ?thesis
      using el sk by (simp add: flt parse_value_Cons is_ws_def object_of_distinct [OF dist])
  qed
qed

lemma serializable_no_BigInt: "serializable v \<Longrightarrow> \<not> reaches_BigInt v"
  by (induction v) auto

lemma JSON_parse_stringify:
  "serializable v \<Longrightarrow> JSON_stringify v = Inr (Some (str_value v)) \<and> JSON_parse (str_value v) = Some v"
  using parse_value_str_value [of v "[]"] serializable_no_BigInt [of v]
  by (auto simp add: JSON_stringify_def JSON_parse_def skip_ws_def)

subsection \<open>Each reader consumes input\<close>

lemma length_dropWhile_less: "takeWhile P s \<noteq> [] \<Longrightarrow> length (dropWhile P s) < length s"
  by (induction s) (auto simp add: less_Suc_eq_le length_dropWhile_le split: if_splits)

lemma parse_int_part_shrinks: "parse_int_part s = Some (ds, r) \<Longrightarrow> length r < length s"
  by (cases s) (auto simp add: parse_int_part_def less_Suc_eq_le length_dropWhile_le split: if_splits)

lemma parse_fraction_shrinks: "parse_fraction s = Some (fs, r) \<Longrightarrow> length r \<le> length s"
  by (cases s) (auto simp add: parse_fraction_def le_Suc_eq length_dropWhile_le split: if_splits)

lemma parse_exponent_shrinks: "parse_exponent s = Some (E, r) \<Longrightarrow> length r \<le> length s"
proof (cases s)
  case Nil
  then show "parse_exponent s = Some (E, r) \<Longrightarrow> ?thesis" by (simp add: parse_exponent_def)
next
  case (Cons c r0)
  assume a: "parse_exponent s = Some (E, r)"
  show ?thesis
  proof (cases "c = CHR ''e'' \<or> c = CHR ''E''")
    case False
    with a Cons show ?thesis by (auto simp add: parse_exponent_def)
  next
    case True
    let ?r1 = "if r0 \<noteq> [] \<and> (hd r0 = CHR ''-'' \<or> hd r0 = CHR ''+'') then tl r0 else r0"
    from a Cons True have "r = dropWhile is_digit ?r1"
      by (auto simp add: parse_exponent_def Let_def split: if_splits)
    moreover have "length (dropWhile is_digit ?r1) \<le> length ?r1" by (rule length_dropWhile_le)
    moreover have "length ?r1 \<le> length r0" by simp
    ultimately show ?thesis using Cons by simp
  qed
qed

lemma parse_unsigned_shrinks: "parse_unsigned s = Some (x, r) \<Longrightarrow> length r < length s"
  by (auto simp add: parse_unsigned_def split: option.splits
      dest!: parse_int_part_shrinks parse_fraction_shrinks parse_exponent_shrinks)

lemma parse_number_shrinks: "parse_number s = Some (v, r) \<Longrightarrow> length r < length s"
  by (cases s) (auto simp add: parse_number_def split: if_splits dest!: parse_unsigned_shrinks)

lemma skip_ws_ConsD: "skip_ws s = c # r \<Longrightarrow> length r < length s"
  using length_skip_ws [of s] by simp

lemma parse_value_SomeD:
  assumes "parse_value s = Some (v, r)"
  obtains c r0 where "skip_ws s = c # r0"
    and "c = CHR ''{'' \<Longrightarrow>
           (\<exists>c1 r1. skip_ws r0 = c1 # r1 \<and>
              (if c1 = CHR ''}'' then v = JObj [] \<and> r = r1
               else \<exists>kvs. parse_members r0 = Some (kvs, r) \<and> v = JObj (object_of kvs)))"
    and "c = CHR ''['' \<Longrightarrow>
           (\<exists>c1 r1. skip_ws r0 = c1 # r1 \<and>
              (if c1 = CHR '']'' then v = JArr [] \<and> r = r1
               else \<exists>vs. parse_elements r0 = Some (vs, r) \<and> v = JArr vs))"
    and "c = CHR 0x22 \<Longrightarrow> \<exists>str. parse_chars r0 = Some (str, r) \<and> v = JStr str"
    and "c = CHR ''t'' \<Longrightarrow> take 3 r0 = ''rue'' \<and> v = JBool True \<and> r = drop 3 r0"
    and "c = CHR ''f'' \<Longrightarrow> take 4 r0 = ''alse'' \<and> v = JBool False \<and> r = drop 4 r0"
    and "c = CHR ''n'' \<Longrightarrow> take 3 r0 = ''ull'' \<and> v = JNull \<and> r = drop 3 r0"
    and "c \<notin> set ''{[tfn'' \<Longrightarrow> c \<noteq> CHR 0x22 \<Longrightarrow> parse_number (c # r0) = Some (v, r)"
proof -
  from assms obtain c r0 where sk: "skip_ws s = c # r0"
    by (subst (asm) parse_value.simps) (auto split: list.splits)
  from assms sk have body:
    "(if c = CHR ''{'' then
        (case skip_ws r0 of
           [] \<Rightarrow> None
         | c1 # r1 \<Rightarrow>
             if c1 = CHR ''}'' then Some (JObj [], r1)
             else map_option (\<lambda>(kvs, r2). (JObj (object_of kvs), r2)) (parse_members r0))
      else if c = CHR ''['' then
        (case skip_ws r0 of
           [] \<Rightarrow> None
         | c1 # r1 \<Rightarrow>
             if c1 = CHR '']'' then Some (JArr [], r1)
             else map_option (\<lambda>(vs, r2). (JArr vs, r2)) (parse_elements r0))
      else if c = CHR 0x22 then map_option (\<lambda>(str, r1). (JStr str, r1)) (parse_chars r0)
      else if c = CHR ''t'' then (if take 3 r0 = ''rue'' then Some (JBool True, drop 3 r0) else None)
      else if c = CHR ''f'' then (if take 4 r0 = ''alse'' then Some (JBool False, drop 4 r0) else None)
      else if c = CHR ''n'' then (if take 3 r0 = ''ull'' then Some (JNull, drop 3 r0) else None)
      else parse_number (c # r0)) = Some (v, r)"
    by (subst (asm) parse_value.simps) simp
  show thesis
  proof (rule that [OF sk])
    assume "c = CHR ''{''"
    with body show "\<exists>c1 r1. skip_ws r0 = c1 # r1 \<and>
              (if c1 = CHR ''}'' then v = JObj [] \<and> r = r1
               else \<exists>kvs. parse_members r0 = Some (kvs, r) \<and> v = JObj (object_of kvs))"
      by (auto split: list.splits if_splits)
  next
    assume "c = CHR ''[''"
    with body show "\<exists>c1 r1. skip_ws r0 = c1 # r1 \<and>
              (if c1 = CHR '']'' then v = JArr [] \<and> r = r1
               else \<exists>vs. parse_elements r0 = Some (vs, r) \<and> v = JArr vs)"
      by (auto split: list.splits if_splits)
  next
    assume "c = CHR 0x22"
    with body show "\<exists>str. parse_chars r0 = Some (str, r) \<and> v = JStr str" by auto
  next
    assume "c = CHR ''t''"
    with body show "take 3 r0 = ''rue'' \<and> v = JBool True \<and> r = drop 3 r0" by (auto split: if_splits)
  next
    assume "c = CHR ''f''"
    with body show "take 4 r0 = ''alse'' \<and> v = JBool False \<and> r = drop 4 r0" by (auto split: if_splits)
  next
    assume "c = CHR ''n''"
    with body show "take 3 r0 = ''ull'' \<and> v = JNull \<and> r = drop 3 r0" by (auto split: if_splits)
  next
    assume "c \<notin> set ''{[tfn''" "c \<noteq> CHR 0x22"
    with body show "parse_number (c # r0) = Some (v, r)" by simp
  qed
qed


lemma parse_shrinks:
  "(\<forall>v r. parse_value s = Some (v, r) \<longrightarrow> length r < length s)"
  "(\<forall>vs r. parse_elements s1 = Some (vs, r) \<longrightarrow> length r < length s1)"
  "(\<forall>kvs r. parse_members s2 = Some (kvs, r) \<longrightarrow> length r < length s2)"
proof (induction s and s1 and s2 rule: parse_value_parse_elements_parse_members.induct)
  case (1 s)
  show ?case
  proof (intro allI impI)
    fix v r
    assume pv: "parse_value s = Some (v, r)"
    from pv show "length r < length s"
    proof (rule parse_value_SomeD)
      fix c r0
      assume sk: "skip_ws s = c # r0"
        and h_obj: "c = CHR ''{'' \<Longrightarrow>
           (\<exists>c1 r1. skip_ws r0 = c1 # r1 \<and>
              (if c1 = CHR ''}'' then v = JObj [] \<and> r = r1
               else \<exists>kvs. parse_members r0 = Some (kvs, r) \<and> v = JObj (object_of kvs)))"
        and h_arr: "c = CHR ''['' \<Longrightarrow>
           (\<exists>c1 r1. skip_ws r0 = c1 # r1 \<and>
              (if c1 = CHR '']'' then v = JArr [] \<and> r = r1
               else \<exists>vs. parse_elements r0 = Some (vs, r) \<and> v = JArr vs))"
        and h_str: "c = CHR 0x22 \<Longrightarrow> \<exists>str. parse_chars r0 = Some (str, r) \<and> v = JStr str"
        and h_t: "c = CHR ''t'' \<Longrightarrow> take 3 r0 = ''rue'' \<and> v = JBool True \<and> r = drop 3 r0"
        and h_f: "c = CHR ''f'' \<Longrightarrow> take 4 r0 = ''alse'' \<and> v = JBool False \<and> r = drop 4 r0"
        and h_n: "c = CHR ''n'' \<Longrightarrow> take 3 r0 = ''ull'' \<and> v = JNull \<and> r = drop 3 r0"
        and h_num: "c \<notin> set ''{[tfn'' \<Longrightarrow> c \<noteq> CHR 0x22 \<Longrightarrow> parse_number (c # r0) = Some (v, r)"
      have l0: "length r0 < length s" using sk by (rule skip_ws_ConsD)
      consider (obj) "c = CHR ''{''" | (arr) "c = CHR ''[''" | (str) "c = CHR 0x22" | (t) "c = CHR ''t''"
        | (f) "c = CHR ''f''" | (n) "c = CHR ''n''" | (num) "c \<notin> set ''{[tfn''" "c \<noteq> CHR 0x22"
        by auto
      then have "length r \<le> length r0"
      proof cases
        case obj
        from h_obj [OF this] obtain c1 r1 where sk1: "skip_ws r0 = c1 # r1"
          and alt: "if c1 = CHR ''}'' then v = JObj [] \<and> r = r1
               else \<exists>kvs. parse_members r0 = Some (kvs, r) \<and> v = JObj (object_of kvs)" by blast
        show ?thesis
        proof (cases "c1 = CHR ''}''")
          case True
          with alt skip_ws_ConsD [OF sk1] show ?thesis by simp
        next
          case False
          with alt obtain kvs where "parse_members r0 = Some (kvs, r)" by auto
          with "1.IH"(1) [OF sk \<open>c = CHR ''{''\<close> sk1 False] show ?thesis by simp
        qed
      next
        case arr
        from h_arr [OF this] obtain c1 r1 where sk1: "skip_ws r0 = c1 # r1"
          and alt: "if c1 = CHR '']'' then v = JArr [] \<and> r = r1
               else \<exists>vs. parse_elements r0 = Some (vs, r) \<and> v = JArr vs" by blast
        have nobj: "c \<noteq> CHR ''{''" using \<open>c = CHR ''[''\<close> by simp
        show ?thesis
        proof (cases "c1 = CHR '']''")
          case True
          with alt skip_ws_ConsD [OF sk1] show ?thesis by simp
        next
          case False
          with alt obtain vs where "parse_elements r0 = Some (vs, r)" by auto
          with "1.IH"(2) [OF sk nobj \<open>c = CHR ''[''\<close> sk1 False] show ?thesis by simp
        qed
      next
        case str
        from h_str [OF this] parse_chars_shrinks show ?thesis by fastforce
      next
        case t
        from h_t [OF this] show ?thesis by simp
      next
        case f
        from h_f [OF this] show ?thesis by simp
      next
        case n
        from h_n [OF this] show ?thesis by simp
      next
        case num
        from parse_number_shrinks [OF h_num [OF num]] show ?thesis by simp
      qed
      with l0 show "length r < length s" by simp
    qed
  qed
next
  case (2 s)
  show ?case
  proof (intro allI impI)
    fix vs r
    assume pe: "parse_elements s = Some (vs, r)"
    then obtain v r1 where pv: "parse_value s = Some (v, r1)"
      by (subst (asm) parse_elements.simps) (auto split: option.splits)
    with "2.IH"(1) have l1: "length r1 < length s" by simp
    from pe pv l1 obtain c r2 where sk: "skip_ws r1 = c # r2"
      by (subst (asm) parse_elements.simps) (auto split: list.splits)
    have l2: "length r2 < length r1" using sk by (rule skip_ws_ConsD)
    from pe pv l1 sk have alt: "(c = CHR '','' \<and> (\<exists>vs'. parse_elements r2 = Some (vs', r)))
        \<or> (c = CHR '']'' \<and> r = r2)"
      by (subst (asm) parse_elements.simps) (auto split: if_splits)
    then show "length r < length s"
    proof
      assume a: "c = CHR '','' \<and> (\<exists>vs'. parse_elements r2 = Some (vs', r))"
      then obtain vs' where "parse_elements r2 = Some (vs', r)" by blast
      with "2.IH"(2) [OF pv refl l1 sk] a have "length r < length r2" by simp
      with l1 l2 show ?thesis by simp
    next
      assume "c = CHR '']'' \<and> r = r2"
      with l1 l2 show ?thesis by simp
    qed
  qed
next
  case (3 s)
  show ?case
  proof (intro allI impI)
    fix kvs r
    assume pm: "parse_members s = Some (kvs, r)"
    then obtain r0 where sk0: "skip_ws s = CHR 0x22 # r0"
      by (subst (asm) parse_members.simps) (auto split: list.splits if_splits)
    with pm obtain k r1 where pc: "parse_chars r0 = Some (k, r1)"
      by (subst (asm) parse_members.simps) (auto split: option.splits)
    with pm sk0 obtain r2 where sk1: "skip_ws r1 = CHR '':'' # r2"
      by (subst (asm) parse_members.simps) (auto split: list.splits if_splits)
    with pm sk0 pc obtain v r3 where pv: "parse_value r2 = Some (v, r3)"
      by (subst (asm) parse_members.simps) (auto split: option.splits)
    have q: "\<not> CHR 0x22 \<noteq> CHR 0x22" "\<not> CHR '':'' \<noteq> CHR '':''" by simp_all
    from "3.IH"(1) [OF sk0 q(1) pc refl sk1 q(2)] pv have l3: "length r3 < length r2" by simp
    from pm sk0 pc sk1 pv l3 obtain c r4 where sk3: "skip_ws r3 = c # r4"
      by (subst (asm) parse_members.simps) (auto split: list.splits)
    from pm sk0 pc sk1 pv l3 sk3 have alt: "(c = CHR '','' \<and> (\<exists>kvs'. parse_members r4 = Some (kvs', r)))
        \<or> (c = CHR ''}'' \<and> r = r4)"
      by (subst (asm) parse_members.simps) (auto split: if_splits)
    have chain: "length r4 < length s"
      using skip_ws_ConsD [OF sk0] parse_chars_shrinks [OF pc] skip_ws_ConsD [OF sk1] l3 skip_ws_ConsD [OF sk3]
      by simp
    from alt show "length r < length s"
    proof
      assume a: "c = CHR '','' \<and> (\<exists>kvs'. parse_members r4 = Some (kvs', r))"
      then obtain kvs' where "parse_members r4 = Some (kvs', r)" by blast
      with "3.IH"(2) [OF sk0 q(1) pc refl sk1 q(2) pv refl l3 sk3] a have "length r < length r4" by simp
      with chain show ?thesis by simp
    next
      assume "c = CHR ''}'' \<and> r = r4"
      with chain show ?thesis by simp
    qed
  qed
qed

lemma parse_value_shrinks: "parse_value s = Some (v, r) \<Longrightarrow> length r < length s"
  using parse_shrinks(1) by blast


subsection \<open>A value read from a text is read from every extension of the text\<close>

lemma skip_ws_append: "skip_ws s = c # r \<Longrightarrow> skip_ws (s @ t) = c # r @ t"
  unfolding skip_ws_def by (induction s) (auto split: if_splits)

lemma parse_escape_append:
  "parse_escape s = Some (ch, r) \<Longrightarrow> parse_escape (s @ t) = Some (ch, r @ t)"
  by (auto simp add: parse_escape_def split: list.splits if_splits option.splits)

lemma parse_chars_append: "parse_chars s = Some (x, r) \<Longrightarrow> parse_chars (s @ t) = Some (x, r @ t)"
proof (induction s arbitrary: x r rule: parse_chars.induct)
  case 1
  then show ?case by simp
next
  case (2 c r')
  show ?case
  proof (cases "c = CHR 0x22")
    case True
    with "2.prems" show ?thesis by simp
  next
    case nq: False
    show ?thesis
    proof (cases "c = CHR 0x5C")
      case True
      with "2.prems" obtain ch r1 s' where e: "parse_escape r' = Some (ch, r1)"
        and p: "parse_chars r1 = Some (s', r)" and x: "x = ch @ s'"
        by (auto split: option.splits)
      from "2.IH"(1) [OF nq True e refl p] parse_escape_append [OF e, of t] True x
      show ?thesis by simp
    next
      case False
      with nq "2.prems" obtain s' where p: "parse_chars r' = Some (s', r)" and x: "x = c # s'"
        and c: "\<not> (of_char c :: nat) < 32"
        by (auto split: if_splits)
      from "2.IH"(2) [OF nq False c p] nq False c x show ?thesis by simp
    qed
  qed
qed

lemma while_append:
  assumes "dropWhile P s \<noteq> []"
  shows "takeWhile P (s @ t) = takeWhile P s" "dropWhile P (s @ t) = dropWhile P s @ t"
proof -
  from assms obtain x where "x \<in> set s" "\<not> P x" by (auto simp add: dropWhile_eq_Nil_conv)
  then show "takeWhile P (s @ t) = takeWhile P s" "dropWhile P (s @ t) = dropWhile P s @ t"
    by (simp_all add: takeWhile_append1 dropWhile_append1)
qed

lemma parse_int_part_append:
  assumes "parse_int_part s = Some (ds, r)" "r \<noteq> []"
  shows "parse_int_part (s @ t) = Some (ds, r @ t)"
proof (cases s)
  case Nil
  with assms show ?thesis by (simp add: parse_int_part_def)
next
  case (Cons c s')
  show ?thesis
  proof (cases "c = CHR ''0''")
    case True
    with assms Cons show ?thesis by (simp add: parse_int_part_def)
  next
    case False
    with assms Cons have d: "is_digit c" "ds = takeWhile is_digit s" "r = dropWhile is_digit s"
      by (auto simp add: parse_int_part_def split: if_splits)
    from d(3) assms(2) have "dropWhile is_digit s \<noteq> []" by simp
    from while_append [OF this, of t] d False Cons show ?thesis
      by (simp add: parse_int_part_def)
  qed
qed

lemma parse_fraction_append:
  assumes "parse_fraction s = Some (fs, r)" "r \<noteq> []"
  shows "parse_fraction (s @ t) = Some (fs, r @ t)"
proof (cases s)
  case Nil
  with assms show ?thesis by (simp add: parse_fraction_def)
next
  case (Cons c s')
  show ?thesis
  proof (cases "c = CHR ''.''")
    case False
    with assms(1) Cons have "fs = []" "r = c # s'" by (auto simp add: parse_fraction_def)
    with False show ?thesis by (simp add: parse_fraction_def Cons)
  next
    case True
    with assms Cons have d: "takeWhile is_digit s' \<noteq> []" "fs = takeWhile is_digit s'" "r = dropWhile is_digit s'"
      by (auto simp add: parse_fraction_def split: if_splits)
    from d(3) assms(2) have "dropWhile is_digit s' \<noteq> []" by simp
    from while_append [OF this, of t] d True Cons show ?thesis
      by (simp add: parse_fraction_def)
  qed
qed

lemma parse_exponent_append:
  assumes "parse_exponent s = Some (E, r)" "r \<noteq> []"
  shows "parse_exponent (s @ t) = Some (E, r @ t)"
proof (cases s)
  case Nil
  with assms show ?thesis by (simp add: parse_exponent_def)
next
  case (Cons c s')
  show ?thesis
  proof (cases "c = CHR ''e'' \<or> c = CHR ''E''")
    case False
    with assms Cons show ?thesis by (auto simp add: parse_exponent_def)
  next
    case True
    let ?r1 = "\<lambda>r. if r \<noteq> [] \<and> (hd r = CHR ''-'' \<or> hd r = CHR ''+'') then tl r else r"
    from assms(1) Cons True have d: "takeWhile is_digit (?r1 s') \<noteq> []" "r = dropWhile is_digit (?r1 s')"
      "E = (if s' \<noteq> [] \<and> hd s' = CHR ''-'' then - int (read_nat (takeWhile is_digit (?r1 s')))
            else int (read_nat (takeWhile is_digit (?r1 s'))))"
      by (auto simp add: parse_exponent_def Let_def split: if_splits)
    from d(1) have ne: "s' \<noteq> []" by auto
    then have r1: "?r1 (s' @ t) = ?r1 s' @ t" by auto
    from d(2) assms(2) have "dropWhile is_digit (?r1 s') \<noteq> []" by simp
    note w = while_append [OF this, of t]
    have "parse_exponent (c # s' @ t) =
        (if takeWhile is_digit (?r1 (s' @ t)) = [] then None
         else Some (if s' @ t \<noteq> [] \<and> hd (s' @ t) = CHR ''-''
                    then - int (read_nat (takeWhile is_digit (?r1 (s' @ t))))
                    else int (read_nat (takeWhile is_digit (?r1 (s' @ t)))),
                    dropWhile is_digit (?r1 (s' @ t))))"
      using True by (simp add: parse_exponent_def Let_def)
    also have "\<dots> = Some (E, r @ t)"
      unfolding r1 w using d ne by simp
    finally show ?thesis using Cons by simp
  qed
qed

lemma parse_unsigned_append:
  assumes "parse_unsigned s = Some (x, r)" "r \<noteq> []"
  shows "parse_unsigned (s @ t) = Some (x, r @ t)"
proof -
  from assms(1) obtain ds r1 fs r2 E where p: "parse_int_part s = Some (ds, r1)"
    "parse_fraction r1 = Some (fs, r2)" "parse_exponent r2 = Some (E, r)"
    and x: "x = decimal (read_nat (ds @ fs)) (length fs) E"
    by (auto simp add: parse_unsigned_def split: option.splits)
  from parse_exponent_shrinks [OF p(3)] assms(2) have r2: "r2 \<noteq> []" by auto
  from parse_fraction_shrinks [OF p(2)] r2 have r1: "r1 \<noteq> []" by auto
  show ?thesis
    using parse_int_part_append [OF p(1) r1, of t] parse_fraction_append [OF p(2) r2, of t]
      parse_exponent_append [OF p(3) assms(2), of t] x
    by (simp add: parse_unsigned_def)
qed

lemma parse_number_append:
  assumes "parse_number s = Some (v, r)" "r \<noteq> []"
  shows "parse_number (s @ t) = Some (v, r @ t)"
proof (cases s)
  case Nil
  with assms show ?thesis by (simp add: parse_number_def)
next
  case (Cons c s')
  show ?thesis
  proof (cases "c = CHR ''-''")
    case True
    with assms(1) Cons obtain m k where "parse_unsigned s' = Some ((m, k), r)" "v = JNum (- int m) k"
      by (auto simp add: parse_number_def)
    with parse_unsigned_append [OF this(1) assms(2), of t] True Cons show ?thesis
      by (simp add: parse_number_def)
  next
    case False
    with assms(1) Cons obtain m k where "parse_unsigned s = Some ((m, k), r)" "v = JNum (int m) k"
      by (auto simp add: parse_number_def)
    with parse_unsigned_append [OF this(1) assms(2), of t] False Cons show ?thesis
      by (simp add: parse_number_def)
  qed
qed

lemma literal_append:
  assumes "take n r = lit" "length lit = n"
  shows "take n (r @ t) = lit \<and> drop n (r @ t) = drop n r @ t"
proof -
  have "length (take n r) = n" using assms by simp
  then have "n \<le> length r" by (simp add: min_def split: if_splits)
  then show ?thesis using assms(1) by simp
qed



lemma parse_append:
  "(\<forall>v r t. parse_value s = Some (v, r) \<and> (r \<noteq> [] \<or> typeof v \<noteq> ''number'')
      \<longrightarrow> parse_value (s @ t) = Some (v, r @ t))"
  "(\<forall>vs r t. parse_elements s1 = Some (vs, r) \<longrightarrow> parse_elements (s1 @ t) = Some (vs, r @ t))"
  "(\<forall>kvs r t. parse_members s2 = Some (kvs, r) \<longrightarrow> parse_members (s2 @ t) = Some (kvs, r @ t))"
proof (induction s and s1 and s2 rule: parse_value_parse_elements_parse_members.induct)
  case (1 s)
  show ?case
  proof (intro allI impI, elim conjE)
    fix v r t
    assume pv: "parse_value s = Some (v, r)" and side: "r \<noteq> [] \<or> typeof v \<noteq> ''number''"
    from pv show "parse_value (s @ t) = Some (v, r @ t)"
    proof (rule parse_value_SomeD)
      fix c r0
      assume sk: "skip_ws s = c # r0"
        and h_obj: "c = CHR ''{'' \<Longrightarrow>
           (\<exists>c1 r1. skip_ws r0 = c1 # r1 \<and>
              (if c1 = CHR ''}'' then v = JObj [] \<and> r = r1
               else \<exists>kvs. parse_members r0 = Some (kvs, r) \<and> v = JObj (object_of kvs)))"
        and h_arr: "c = CHR ''['' \<Longrightarrow>
           (\<exists>c1 r1. skip_ws r0 = c1 # r1 \<and>
              (if c1 = CHR '']'' then v = JArr [] \<and> r = r1
               else \<exists>vs. parse_elements r0 = Some (vs, r) \<and> v = JArr vs))"
        and h_str: "c = CHR 0x22 \<Longrightarrow> \<exists>str. parse_chars r0 = Some (str, r) \<and> v = JStr str"
        and h_t: "c = CHR ''t'' \<Longrightarrow> take 3 r0 = ''rue'' \<and> v = JBool True \<and> r = drop 3 r0"
        and h_f: "c = CHR ''f'' \<Longrightarrow> take 4 r0 = ''alse'' \<and> v = JBool False \<and> r = drop 4 r0"
        and h_n: "c = CHR ''n'' \<Longrightarrow> take 3 r0 = ''ull'' \<and> v = JNull \<and> r = drop 3 r0"
        and h_num: "c \<notin> set ''{[tfn'' \<Longrightarrow> c \<noteq> CHR 0x22 \<Longrightarrow> parse_number (c # r0) = Some (v, r)"
      have sk': "skip_ws (s @ t) = c # r0 @ t" using sk by (rule skip_ws_append)
      consider (obj) "c = CHR ''{''" | (arr) "c = CHR ''[''" | (str) "c = CHR 0x22" | (t) "c = CHR ''t''"
        | (f) "c = CHR ''f''" | (n) "c = CHR ''n''" | (num) "c \<notin> set ''{[tfn''" "c \<noteq> CHR 0x22"
        by auto
      then show "parse_value (s @ t) = Some (v, r @ t)"
      proof cases
        case obj
        from h_obj [OF this] obtain c1 r1 where sk1: "skip_ws r0 = c1 # r1"
          and alt: "if c1 = CHR ''}'' then v = JObj [] \<and> r = r1
               else \<exists>kvs. parse_members r0 = Some (kvs, r) \<and> v = JObj (object_of kvs)" by blast
        have sk1': "skip_ws (r0 @ t) = c1 # r1 @ t" using sk1 by (rule skip_ws_append)
        show ?thesis
        proof (cases "c1 = CHR ''}''")
          case True
          with alt sk' sk1' obj show ?thesis by (subst parse_value.simps) simp
        next
          case False
          with alt obtain kvs where pm: "parse_members r0 = Some (kvs, r)" and v: "v = JObj (object_of kvs)"
            by auto
          from "1.IH"(1) [OF sk obj sk1 False] pm have "parse_members (r0 @ t) = Some (kvs, r @ t)" by blast
          with sk' sk1' obj False v show ?thesis by (subst parse_value.simps) simp
        qed
      next
        case arr
        from h_arr [OF this] obtain c1 r1 where sk1: "skip_ws r0 = c1 # r1"
          and alt: "if c1 = CHR '']'' then v = JArr [] \<and> r = r1
               else \<exists>vs. parse_elements r0 = Some (vs, r) \<and> v = JArr vs" by blast
        have nobj: "c \<noteq> CHR ''{''" using arr by simp
        have sk1': "skip_ws (r0 @ t) = c1 # r1 @ t" using sk1 by (rule skip_ws_append)
        show ?thesis
        proof (cases "c1 = CHR '']''")
          case True
          with alt sk' sk1' arr show ?thesis by (subst parse_value.simps) simp
        next
          case False
          with alt obtain vs where pe: "parse_elements r0 = Some (vs, r)" and v: "v = JArr vs"
            by auto
          from "1.IH"(2) [OF sk nobj arr sk1 False] pe have "parse_elements (r0 @ t) = Some (vs, r @ t)" by blast
          with sk' sk1' arr False v show ?thesis by (subst parse_value.simps) simp
        qed
      next
        case str
        from h_str [OF this] obtain x where "parse_chars r0 = Some (x, r)" "v = JStr x" by blast
        with parse_chars_append [OF this(1), of t] sk' str show ?thesis
          by (subst parse_value.simps) simp
      next
        case t
        from h_t [OF this] literal_append [of 3 r0 "''rue''" t] sk' t show ?thesis
          by (subst parse_value.simps) simp
      next
        case f
        from h_f [OF this] literal_append [of 4 r0 "''alse''" t] sk' f show ?thesis
          by (subst parse_value.simps) simp
      next
        case n
        from h_n [OF this] literal_append [of 3 r0 "''ull''" t] sk' n show ?thesis
          by (subst parse_value.simps) simp
      next
        case num
        have pn: "parse_number (c # r0) = Some (v, r)" by (rule h_num [OF num])
        then have "typeof v = ''number''"
          by (auto simp add: parse_number_def split: if_splits)
        with side have "r \<noteq> []" by simp
        from parse_number_append [OF pn this, of t] sk' num show ?thesis
          by (subst parse_value.simps) simp
      qed
    qed
  qed
next
  case (2 s)
  show ?case
  proof (intro allI impI)
    fix vs r t
    assume pe: "parse_elements s = Some (vs, r)"
    then obtain v r1 where pv: "parse_value s = Some (v, r1)"
      by (subst (asm) parse_elements.simps) (auto split: option.splits)
    have l1: "length r1 < length s" using pv by (rule parse_value_shrinks)
    from pe pv l1 obtain c r2 where sk: "skip_ws r1 = c # r2"
      by (subst (asm) parse_elements.simps) (auto split: list.splits)
    from pe pv l1 sk have alt: "(c = CHR '','' \<and> (\<exists>vs'. parse_elements r2 = Some (vs', r) \<and> vs = v # vs'))
        \<or> (c = CHR '']'' \<and> r = r2 \<and> vs = [v])"
      by (subst (asm) parse_elements.simps) (auto split: if_splits)
    from sk have "r1 \<noteq> []" by (auto simp add: skip_ws_def)
    with "2.IH"(1) pv have pv': "parse_value (s @ t) = Some (v, r1 @ t)" by blast
    have l1': "length (r1 @ t) < length (s @ t)" using l1 by simp
    have sk': "skip_ws (r1 @ t) = c # r2 @ t" using sk by (rule skip_ws_append)
    from alt show "parse_elements (s @ t) = Some (vs, r @ t)"
    proof
      assume a: "c = CHR '','' \<and> (\<exists>vs'. parse_elements r2 = Some (vs', r) \<and> vs = v # vs')"
      then obtain vs' where p2: "parse_elements r2 = Some (vs', r)" and vs: "vs = v # vs'" by blast
      from "2.IH"(2) [OF pv refl l1 sk] a p2 have "parse_elements (r2 @ t) = Some (vs', r @ t)" by blast
      with pv' l1' sk' a vs show ?thesis by (subst parse_elements.simps) simp
    next
      assume "c = CHR '']'' \<and> r = r2 \<and> vs = [v]"
      with pv' l1' sk' show ?thesis by (subst parse_elements.simps) simp
    qed
  qed
next
  case (3 s)
  show ?case
  proof (intro allI impI)
    fix kvs r t
    assume pm: "parse_members s = Some (kvs, r)"
    then obtain r0 where sk0: "skip_ws s = CHR 0x22 # r0"
      by (subst (asm) parse_members.simps) (auto split: list.splits if_splits)
    with pm obtain k r1 where pc: "parse_chars r0 = Some (k, r1)"
      by (subst (asm) parse_members.simps) (auto split: option.splits)
    with pm sk0 obtain r2 where sk1: "skip_ws r1 = CHR '':'' # r2"
      by (subst (asm) parse_members.simps) (auto split: list.splits if_splits)
    with pm sk0 pc obtain v r3 where pv: "parse_value r2 = Some (v, r3)"
      by (subst (asm) parse_members.simps) (auto split: option.splits)
    have q: "\<not> CHR 0x22 \<noteq> CHR 0x22" "\<not> CHR '':'' \<noteq> CHR '':''" by simp_all
    have l3: "length r3 < length r2" using pv by (rule parse_value_shrinks)
    from pm sk0 pc sk1 pv l3 obtain c r4 where sk3: "skip_ws r3 = c # r4"
      by (subst (asm) parse_members.simps) (auto split: list.splits)
    from pm sk0 pc sk1 pv l3 sk3
    have alt: "(c = CHR '','' \<and> (\<exists>kvs'. parse_members r4 = Some (kvs', r) \<and> kvs = (k, v) # kvs'))
        \<or> (c = CHR ''}'' \<and> r = r4 \<and> kvs = [(k, v)])"
      by (subst (asm) parse_members.simps) (auto split: if_splits)
    have sk0': "skip_ws (s @ t) = CHR 0x22 # r0 @ t" using sk0 by (rule skip_ws_append)
    have pc': "parse_chars (r0 @ t) = Some (k, r1 @ t)" using pc by (rule parse_chars_append)
    have sk1': "skip_ws (r1 @ t) = CHR '':'' # r2 @ t" using sk1 by (rule skip_ws_append)
    from sk3 have "r3 \<noteq> []" by (auto simp add: skip_ws_def)
    with "3.IH"(1) [OF sk0 q(1) pc refl sk1 q(2)] pv
    have pv': "parse_value (r2 @ t) = Some (v, r3 @ t)" by blast
    have l3': "length (r3 @ t) < length (r2 @ t)" using l3 by simp
    have sk3': "skip_ws (r3 @ t) = c # r4 @ t" using sk3 by (rule skip_ws_append)
    from alt show "parse_members (s @ t) = Some (kvs, r @ t)"
    proof
      assume a: "c = CHR '','' \<and> (\<exists>kvs'. parse_members r4 = Some (kvs', r) \<and> kvs = (k, v) # kvs')"
      then obtain kvs' where p4: "parse_members r4 = Some (kvs', r)" and kvs: "kvs = (k, v) # kvs'" by blast
      from "3.IH"(2) [OF sk0 q(1) pc refl sk1 q(2) pv refl l3 sk3] a p4
      have "parse_members (r4 @ t) = Some (kvs', r @ t)" by blast
      with sk0' pc' sk1' pv' l3' sk3' a kvs show ?thesis by (subst parse_members.simps) simp
    next
      assume "c = CHR ''}'' \<and> r = r4 \<and> kvs = [(k, v)]"
      with sk0' pc' sk1' pv' l3' sk3' show ?thesis by (subst parse_members.simps) simp
    qed
  qed
qed

lemma parse_value_append:
  "parse_value s = Some (v, r) \<Longrightarrow> r \<noteq> [] \<or> typeof v \<noteq> ''number''
     \<Longrightarrow> parse_value (s @ t) = Some (v, r @ t)"
  using parse_append(1) by blast

text \<open>No proper prefix of a printed object is a JSON text.\<close>

lemma JSON_parse_truncated:
  assumes ser: "serializable (JObj kvs)"
    and cut: "p @ t = str_value (JObj kvs)" and t: "t \<noteq> []"
  shows "JSON_parse p = None"
proof (rule ccontr)
  assume "JSON_parse p \<noteq> None"
  then obtain v' r' where pv: "parse_value p = Some (v', r')" and ws: "skip_ws r' = []"
    by (auto simp add: JSON_parse_def split: option.splits if_splits)
  have full: "parse_value (p @ t) = Some (JObj kvs, [])"
    using parse_value_str_value [OF ser, of "[]"] cut by simp
  have notnum: "r' \<noteq> [] \<or> typeof v' \<noteq> ''number''"
  proof (rule ccontr)
    assume "\<not> (r' \<noteq> [] \<or> typeof v' \<noteq> ''number'')"
    then have r': "r' = []" and num: "typeof v' = ''number''" by simp_all
    from pv obtain c r0 where sk: "skip_ws p = c # r0"
      by (subst (asm) parse_value.simps) (auto split: list.splits)
    have sk': "skip_ws (p @ t) = c # r0 @ t" using sk by (rule skip_ws_append)
    obtain cs where c0: "str_value (JObj kvs) = CHR ''{'' # cs" by simp
    have "skip_ws (CHR ''{'' # cs) = CHR ''{'' # cs" by (rule skip_ws_Cons) (simp add: is_ws_def)
    with c0 have "skip_ws (str_value (JObj kvs)) = CHR ''{'' # cs" by simp
    with sk' cut have "c = CHR ''{''" by simp
    with pv sk num show False
      by (subst (asm) parse_value.simps) (auto split: list.splits if_splits)
  qed
  from parse_value_append [OF pv notnum, of t] full have "r' @ t = []" by simp
  with t show False by simp
qed

section \<open>Properties of the message constructors\<close>

lemma own_prop_createStandardMessage:
  "own_prop (createStandardMessage e t d mid) ''type'' = JStr (MessageType_value t)"
  "own_prop (createStandardMessage e t d mid) ''data'' = JObj d"
  "own_prop (createStandardMessage e t d mid) ''timestamp'' = JStr (date_iso e)"
  by (simp_all add: createStandardMessage_def)

lemma MessageType_value_nonempty: "MessageType_value t \<noteq> []"
  by (cases t) simp_all

lemma validateMessage_createStandardMessage: "validateMessage (createStandardMessage e t d mid)"
  unfolding validateMessage_def
  by (simp add: own_prop_createStandardMessage MessageType_value_nonempty)
    (simp add: createStandardMessage_def)

text \<open>
  C8. For every checkpoint id, approval flag and optional feedback, the message of
  \<^verbatim>\<open>createHITLResponseMessage\<close> has type \<^verbatim>\<open>hitl_response_submitted\<close> and its data is
  exactly \<^verbatim>\<open>{checkpoint_id, response_data: {approved, feedback}}\<close> with the three values
  passed in (a feedback left out is the property \<^verbatim>\<open>feedback: undefined\<close>).
\<close>

theorem createHITLResponseMessage_shape:
  "own_prop (createHITLResponseMessage e checkpointId approved feedback) ''type''
     = JStr ''hitl_response_submitted''
   \<and> own_prop (createHITLResponseMessage e checkpointId approved feedback) ''data''
     = JObj [(''checkpoint_id'', JStr checkpointId),
             (''response_data'', JObj [(''approved'', JBool approved),
                                       (''feedback'', optional_string feedback)])]"
  by (simp add: createHITLResponseMessage_def own_prop_createStandardMessage)

theorem createHITLResponseMessage_shape_witness:
  "own_prop (createHITLResponseMessage \<lparr>date_iso = ''2025-08-18T02:06:24.806Z'', date_now = 1755482784806,
        random36 = ''0.k3j9x2m4pq7''\<rparr> ''checkpoint123'' True (Some ''Looks good'')) ''data''
     = JObj [(''checkpoint_id'', JStr ''checkpoint123''),
             (''response_data'', JObj [(''approved'', JBool True), (''feedback'', JStr ''Looks good'')])]"
  using createHITLResponseMessage_shape
    [of "\<lparr>date_iso = ''2025-08-18T02:06:24.806Z'', date_now = 1755482784806, random36 = ''0.k3j9x2m4pq7''\<rparr>"
        "''checkpoint123''" True "Some ''Looks good''"]
  by simp

section \<open>The decoder\<close>

text \<open>
  The example message of \<^verbatim>\<open>docs/websocket-protocol-specification.md\<close>, with its spaces
  and its fraction, is read and accepted.
\<close>

lemma parseWebSocketMessage_protocol_example:
  \<open>parseWebSocketMessage
     (''{ "type": "workflow_status_update", "data": { "workflow_id": "wf789", "status": "running", ''
      @ ''"current_step": "mesh_generation", "progress": 0.45 }, ''
      @ ''"timestamp": "2025-08-18T02:06:24.806Z", "message_id": "msg_1692324384806_abc123" }'')
   = Some (JObj [(''type'', JStr ''workflow_status_update''),
                 (''data'', JObj [(''workflow_id'', JStr ''wf789''), (''status'', JStr ''running''),
                                  (''current_step'', JStr ''mesh_generation''), (''progress'', JNum 45 2)]),
                 (''timestamp'', JStr ''2025-08-18T02:06:24.806Z''),
                 (''message_id'', JStr ''msg_1692324384806_abc123'')])\<close>
  by code_simp

text \<open>
  An escape of a code unit above \<^verbatim>\<open>00ff\<close> is read, as the bytes of the unit; a
  surrogate that stands alone is printed as its escape and read back; and the escapes of a
  surrogate pair are read as the pair.
\<close>

lemma parseWebSocketMessage_escape_example:
  \<open>parseWebSocketMessage (''{"type":"x","data":{"s":"'' @ [CHR 0x5C] @ ''u0100"}}'')
     = Some (JObj [(''type'', JStr ''x''), (''data'', JObj [(''s'', JStr [CHR 0xC4, CHR 0x80])])])\<close>
  by code_simp

lemma str_value_lone_surrogate:
  \<open>str_value (JStr [CHR 0xED, CHR 0xA0, CHR 0x80]) = ''"'' @ [CHR 0x5C] @ ''ud800"''\<close>
  by code_simp

lemma JSON_parse_lone_surrogate:
  \<open>JSON_parse (''"'' @ [CHR 0x5C] @ ''ud800"'') = Some (JStr [CHR 0xED, CHR 0xA0, CHR 0x80])\<close>
  by code_simp

lemma JSON_parse_surrogate_pair:
  \<open>JSON_parse (''"'' @ [CHR 0x5C] @ ''ud83d'' @ [CHR 0x5C] @ ''ude00"'')
     = Some (JStr [CHR 0xED, CHR 0xA0, CHR 0xBD, CHR 0xED, CHR 0xB8, CHR 0x80])
   \<and> str_value (JStr [CHR 0xED, CHR 0xA0, CHR 0xBD, CHR 0xED, CHR 0xB8, CHR 0x80])
     = [CHR 0x22, CHR 0xED, CHR 0xA0, CHR 0xBD, CHR 0xED, CHR 0xB8, CHR 0x80, CHR 0x22]\<close>
  by code_simp

lemma truthy_string: "truthy v \<and> typeof v = ''string'' \<longleftrightarrow> is_nonempty_string v"
  by (cases v) auto

lemma truthy_object: "truthy v \<and> typeof v = ''object'' \<longleftrightarrow> is_record v \<or> is_array v"
  by (cases v) auto

lemma validateMessage_iff:
  "validateMessage v \<longleftrightarrow>
     is_nonempty_string (own_prop v ''type'') \<and> (is_record (own_prop v ''data'') \<or> is_array (own_prop v ''data''))"
proof (cases "typeof v \<noteq> ''object'' \<or> v = JNull")
  case True
  then have "own_prop v ''type'' = JUndefined" by (cases v) auto
  with True show ?thesis by (simp add: validateMessage_def)
next
  case False
  then show ?thesis
    using truthy_string [of "own_prop v ''type''"] truthy_object [of "own_prop v ''data''"]
    unfolding validateMessage_def by auto
qed

text \<open>
  C2 (amended). \<^verbatim>\<open>parseWebSocketMessage\<close> returns \<^verbatim>\<open>null\<close> exactly when the text is no
  JSON, or the value read has no \<open>type\<close> that is a non-empty string, or has no \<open>data\<close>
  that is an object in the sense of \<^verbatim>\<open>typeof\<close> (a mapping or an array, not \<^verbatim>\<open>null\<close>).
  Every other message is returned as read: the type need not be a member of the enum, and
  \<open>timestamp\<close> and \<open>message_id\<close> are not looked at.
\<close>

theorem parseWebSocketMessage_null_iff:
  "(parseWebSocketMessage s = None \<longleftrightarrow>
      JSON_parse s = None
      \<or> (\<exists>v. JSON_parse s = Some v
             \<and> (\<not> is_nonempty_string (own_prop v ''type'')
                 \<or> \<not> (is_record (own_prop v ''data'') \<or> is_array (own_prop v ''data'')))))
   \<and> (\<forall>m. parseWebSocketMessage s = Some m \<longleftrightarrow> JSON_parse s = Some m \<and> validateMessage m)"
  by (auto simp add: parseWebSocketMessage_def validateMessage_iff split: option.splits)

text \<open>
  The claim as the specification words it fails in both directions: an empty \<open>type\<close> is a
  string and is rejected, and a \<open>data\<close> that is an array is no mapping and is accepted.
\<close>

theorem parseWebSocketMessage_counterexample:
  \<open>parseWebSocketMessage ''{"type":"","data":{}}'' = None
   \<and> \<not> spec_decode_fails ''{"type":"","data":{}}''
   \<and> parseWebSocketMessage ''{"type":"x","data":[1]}'' = Some (JObj [(''type'', JStr ''x''), (''data'', JArr [JNum 1 0])])
   \<and> spec_decode_fails ''{"type":"x","data":[1]}''\<close>
  by code_simp

theorem parseWebSocketMessage_null_iff_witness:
  \<open>parseWebSocketMessage ''{"type":"some_future_type","data":{"k":null}}''
      = Some (JObj [(''type'', JStr ''some_future_type''), (''data'', JObj [(''k'', JNull)])])
   \<and> parseWebSocketMessage ''{"type":"heartbeat"}'' = None
   \<and> parseWebSocketMessage ''{"type":"heartbeat","data":'' = None\<close>
proof -
  have 1: \<open>JSON_parse ''{"type":"some_future_type","data":{"k":null}}''
      = Some (JObj [(''type'', JStr ''some_future_type''), (''data'', JObj [(''k'', JNull)])])\<close>
    by code_simp
  have 2: \<open>JSON_parse ''{"type":"heartbeat"}'' = Some (JObj [(''type'', JStr ''heartbeat'')])\<close>
    by code_simp
  have 3: \<open>JSON_parse ''{"type":"heartbeat","data":'' = None\<close>
    by code_simp
  have v: "validateMessage (JObj [(''type'', JStr ''some_future_type''), (''data'', JObj [(''k'', JNull)])])"
    by (simp add: validateMessage_def)
  show ?thesis
    using parseWebSocketMessage_null_iff [of \<open>''{"type":"some_future_type","data":{"k":null}}''\<close>]
      parseWebSocketMessage_null_iff [of \<open>''{"type":"heartbeat"}''\<close>]
      parseWebSocketMessage_null_iff [of \<open>''{"type":"heartbeat","data":''\<close>]
    unfolding 1 2 3 using v by simp
qed

lemma serializable_createStandardMessage:
  "serializable (JObj data) \<Longrightarrow> serializable (createStandardMessage e type data messageId)"
  by (simp add: createStandardMessage_def)

text \<open>
  C1. For every message type and every data object that \<^verbatim>\<open>JSON.stringify\<close> prints without
  loss, the frame of the message \<^verbatim>\<open>createStandardMessage\<close> builds decodes, with
  \<^verbatim>\<open>parseWebSocketMessage\<close>, to that message: its \<open>data\<close> is the data and its \<open>type\<close>
  the type. Every proper prefix of the frame (a truncated frame) and every text that is no
  JSON decodes to \<^verbatim>\<open>null\<close>; the decoder is total, so nothing is thrown.
\<close>

theorem WireMessage_roundtrip:
  assumes "serializable (JObj data)"
  shows "JSON_stringify (createStandardMessage e type data messageId)
           = Inr (Some (str_value (createStandardMessage e type data messageId)))
    \<and> parseWebSocketMessage (str_value (createStandardMessage e type data messageId))
           = Some (createStandardMessage e type data messageId)
    \<and> own_prop (createStandardMessage e type data messageId) ''data'' = JObj data
    \<and> own_prop (createStandardMessage e type data messageId) ''type'' = JStr (MessageType_value type)
    \<and> (\<forall>p t. p @ t = str_value (createStandardMessage e type data messageId) \<and> t \<noteq> []
           \<longrightarrow> parseWebSocketMessage p = None)
    \<and> (\<forall>s. JSON_parse s = None \<longrightarrow> parseWebSocketMessage s = None)"
proof -
  let ?m = "createStandardMessage e type data messageId"
  have ser: "serializable ?m" using assms by (rule serializable_createStandardMessage)
  obtain kvs where m: "?m = JObj kvs" by (simp add: createStandardMessage_def)
  have rt: "JSON_stringify ?m = Inr (Some (str_value ?m))" "JSON_parse (str_value ?m) = Some ?m"
    using JSON_parse_stringify [OF ser] by simp_all
  have dec: "parseWebSocketMessage (str_value ?m) = Some ?m"
    by (simp add: parseWebSocketMessage_def rt validateMessage_createStandardMessage)
  have trunc: "\<forall>p t. p @ t = str_value ?m \<and> t \<noteq> [] \<longrightarrow> parseWebSocketMessage p = None"
  proof (intro allI impI, elim conjE)
    fix p t
    assume "p @ t = str_value ?m" "t \<noteq> []"
    then have "JSON_parse p = None"
      using JSON_parse_truncated [of kvs p t] ser unfolding m by simp
    then show "parseWebSocketMessage p = None" by (simp add: parseWebSocketMessage_def)
  qed
  have bad: "\<forall>s. JSON_parse s = None \<longrightarrow> parseWebSocketMessage s = None"
    by (simp add: parseWebSocketMessage_def)
  from rt(1) dec trunc bad show ?thesis
    by (simp add: own_prop_createStandardMessage)
qed

theorem WireMessage_roundtrip_witness:
  \<open>str_value (createStandardMessage
       \<lparr>date_iso = ''2025-08-18T02:06:24.806Z'', date_now = 1755482784806, random36 = ''0.k3j9x2m4pq7''\<rparr>
       HEARTBEAT [(''test'', JStr ''data'')] (Some ''test123''))
     = ''{"type":"heartbeat","data":{"test":"data"},"timestamp":"2025-08-18T02:06:24.806Z","message_id":"test123"}''
   \<and> parseWebSocketMessage
       ''{"type":"heartbeat","data":{"test":"data"},"timestamp":"2025-08-18T02:06:24.806Z","message_id":"test123"}''
     = Some (JObj [(''type'', JStr ''heartbeat''), (''data'', JObj [(''test'', JStr ''data'')]),
                   (''timestamp'', JStr ''2025-08-18T02:06:24.806Z''), (''message_id'', JStr ''test123'')])
   \<and> parseWebSocketMessage ''{"type":"heartbeat","data":{"test":"data"},"timestamp":"2025-08-18T02:0'' = None
   \<and> parseWebSocketMessage ''{ invalid json }'' = None\<close>
proof -
  let ?e = "\<lparr>date_iso = ''2025-08-18T02:06:24.806Z'', date_now = 1755482784806, random36 = ''0.k3j9x2m4pq7''\<rparr>"
  let ?m = "createStandardMessage ?e HEARTBEAT [(''test'', JStr ''data'')] (Some ''test123'')"
  have m: "?m = JObj [(''type'', JStr ''heartbeat''), (''data'', JObj [(''test'', JStr ''data'')]),
                   (''timestamp'', JStr ''2025-08-18T02:06:24.806Z''), (''message_id'', JStr ''test123'')]"
    by (simp add: createStandardMessage_def)
  have frame: \<open>str_value (JObj [(''type'', JStr ''heartbeat''), (''data'', JObj [(''test'', JStr ''data'')]),
                   (''timestamp'', JStr ''2025-08-18T02:06:24.806Z''), (''message_id'', JStr ''test123'')])
     = ''{"type":"heartbeat","data":{"test":"data"},"timestamp":"2025-08-18T02:06:24.806Z","message_id":"test123"}''\<close>
    by code_simp
  have cut: \<open>''{"type":"heartbeat","data":{"test":"data"},"timestamp":"2025-08-18T02:0''
        @ ''6:24.806Z","message_id":"test123"}''
     = ''{"type":"heartbeat","data":{"test":"data"},"timestamp":"2025-08-18T02:06:24.806Z","message_id":"test123"}''\<close>
    by simp
  have bad: \<open>JSON_parse ''{ invalid json }'' = None\<close> by code_simp
  have ser: "serializable (JObj [(''test'', JStr ''data'')])" by simp
  note t = WireMessage_roundtrip [OF ser, of ?e HEARTBEAT "Some ''test123''", unfolded m frame]
  from t have 1: \<open>parseWebSocketMessage
       ''{"type":"heartbeat","data":{"test":"data"},"timestamp":"2025-08-18T02:06:24.806Z","message_id":"test123"}''
     = Some (JObj [(''type'', JStr ''heartbeat''), (''data'', JObj [(''test'', JStr ''data'')]),
                   (''timestamp'', JStr ''2025-08-18T02:06:24.806Z''), (''message_id'', JStr ''test123'')])\<close>
    by blast
  from t cut have 2: \<open>parseWebSocketMessage ''{"type":"heartbeat","data":{"test":"data"},"timestamp":"2025-08-18T02:0'' = None\<close>
    by blast
  from t bad have 3: \<open>parseWebSocketMessage ''{ invalid json }'' = None\<close> by blast
  from m frame 1 2 3 show ?thesis by simp
qed

section \<open>Identifiers and error details\<close>

text \<open>
  Two generated identifiers are equal exactly when the two calls read the same millisecond
  and the same nine characters of the random draw.
\<close>

lemma show_int_inj: "show_int a = show_int b \<Longrightarrow> a = b"
proof -
  assume eq: "show_int a = show_int b"
  have nm: "\<And>n. hd (show_nat n) \<noteq> CHR ''-''"
    by (rule hd_show_nat_not_minus)
  have hd: "\<And>n. show_nat n = hd (show_nat n) # tl (show_nat n)"
    using show_nat_nonempty by simp
  show ?thesis
  proof (cases "a < 0")
    case a: True
    show ?thesis
    proof (cases "b < 0")
      case True
      with a eq have "show_nat (nat (- a)) = show_nat (nat (- b))" by (simp add: show_int_def)
      then have "nat (- a) = nat (- b)" by (rule show_nat_inj)
      with a True show ?thesis by simp
    next
      case False
      with a eq have "CHR ''-'' # show_nat (nat (- a)) = show_nat (nat b)" by (simp add: show_int_def)
      with hd [of "nat b"] nm [of "nat b"] show ?thesis by (metis list.sel(1))
    qed
  next
    case a: False
    show ?thesis
    proof (cases "b < 0")
      case True
      with a eq have "show_nat (nat a) = CHR ''-'' # show_nat (nat (- b))" by (simp add: show_int_def)
      with hd [of "nat a"] nm [of "nat a"] show ?thesis by (metis list.sel(1))
    next
      case False
      with a eq have "show_nat (nat a) = show_nat (nat b)" by (simp add: show_int_def)
      then have "nat a = nat b" by (rule show_nat_inj)
      with a False show ?thesis by simp
    qed
  qed
qed

lemma show_int_no_underscore: "CHR ''_'' \<notin> set (show_int i)"
  using show_nat_all_digits by (auto simp add: show_int_def is_digit_def)

lemma split_at_separator:
  assumes "xs @ c # r1 = ys @ c # r2" and "c \<notin> set xs" and "c \<notin> set ys"
  shows "xs = ys \<and> r1 = r2"
proof -
  have "takeWhile (\<lambda>x. x \<noteq> c) (xs @ c # r1) = xs" using assms(2) by (induction xs) auto
  moreover have "takeWhile (\<lambda>x. x \<noteq> c) (ys @ c # r2) = ys" using assms(3) by (induction ys) auto
  ultimately have "xs = ys" using assms(1) by simp
  with assms(1) show ?thesis by simp
qed

lemma generated_message_id_eq_iff:
  "generated_message_id e1 = generated_message_id e2
     \<longleftrightarrow> date_now e1 = date_now e2 \<and> substr (random36 e1) 2 9 = substr (random36 e2) 2 9"
proof
  assume eq: "generated_message_id e1 = generated_message_id e2"
  then have "show_int (date_now e1) @ CHR ''_'' # substr (random36 e1) 2 9
      = show_int (date_now e2) @ CHR ''_'' # substr (random36 e2) 2 9"
    by (simp add: generated_message_id_def)
  from split_at_separator [OF this show_int_no_underscore show_int_no_underscore] show_int_inj
  show "date_now e1 = date_now e2 \<and> substr (random36 e1) 2 9 = substr (random36 e2) 2 9" by blast
next
  assume "date_now e1 = date_now e2 \<and> substr (random36 e1) 2 9 = substr (random36 e2) 2 9"
  then show "generated_message_id e1 = generated_message_id e2" by (simp add: generated_message_id_def)
qed

text \<open>
  What \<^verbatim>\<open>createStandardMessage\<close> stamps: the clock's ISO string as \<open>timestamp\<close>, and as
  \<open>message_id\<close> the identifier passed in when that is a non-empty string, and otherwise
  \<^verbatim>\<open>msg_\<close>, the clock's milliseconds, \<^verbatim>\<open>_\<close> and at most nine characters of the random
  draw. The result passes \<^verbatim>\<open>validateMessage\<close>.
\<close>

lemma createStandardMessage_fields:
  "own_prop (createStandardMessage e type data messageId) ''timestamp'' = JStr (date_iso e)
   \<and> own_prop (createStandardMessage e type data messageId) ''message_id''
       = JStr (case messageId of
                 None \<Rightarrow> ''msg_'' @ show_int (date_now e) @ ''_'' @ substr (random36 e) 2 9
               | Some m \<Rightarrow> if m \<noteq> [] then m
                           else ''msg_'' @ show_int (date_now e) @ ''_'' @ substr (random36 e) 2 9)
   \<and> validateMessage (createStandardMessage e type data messageId)"
proof -
  have mid: "own_prop (createStandardMessage e type data messageId) ''message_id''
       = JStr (case messageId of
                 None \<Rightarrow> ''msg_'' @ show_int (date_now e) @ ''_'' @ substr (random36 e) 2 9
               | Some m \<Rightarrow> if m \<noteq> [] then m
                           else ''msg_'' @ show_int (date_now e) @ ''_'' @ substr (random36 e) 2 9)"
    by (cases messageId) (simp_all add: createStandardMessage_def generated_message_id_def)
  show ?thesis
    unfolding mid by (simp add: own_prop_createStandardMessage validateMessage_createStandardMessage)
qed

text \<open>
  C6. The claim asks that any two distinct calls of \<^verbatim>\<open>createStandardMessage(type, data)\<close>
  get distinct \<open>message_id\<close>s, as the protocol document does and as the test
  \<^verbatim>\<open>should ensure message IDs are unique\<close> expects of two calls in a row. The code misses
  it: the two calls of that test, made in one millisecond with random draws that differ
  after their ninth character, get the same identifier.
\<close>

theorem message_id_collision:
  "random36 \<lparr>date_iso = ''2025-08-18T02:06:24.806Z'', date_now = 1755482784806, random36 = ''0.k3j9x2m4pq7''\<rparr>
     \<noteq> random36 \<lparr>date_iso = ''2025-08-18T02:06:24.806Z'', date_now = 1755482784806, random36 = ''0.k3j9x2m4pzz''\<rparr>
   \<and> own_prop (createStandardMessage
        \<lparr>date_iso = ''2025-08-18T02:06:24.806Z'', date_now = 1755482784806, random36 = ''0.k3j9x2m4pq7''\<rparr>
        HEARTBEAT [] None) ''message_id''
     = JStr ''msg_1755482784806_k3j9x2m4p''
   \<and> own_prop (createStandardMessage
        \<lparr>date_iso = ''2025-08-18T02:06:24.806Z'', date_now = 1755482784806, random36 = ''0.k3j9x2m4pzz''\<rparr>
        HEARTBEAT [] None) ''message_id''
     = JStr ''msg_1755482784806_k3j9x2m4p''"
  by (simp add: createStandardMessage_def generated_message_id_def substr_def show_int_def
      show_nat.simps digit_char_def)

text \<open>
  C10. On a message of the interface type (\<open>type\<close> a string, \<open>data\<close> a Record),
  \<^verbatim>\<open>extractErrorDetails\<close> throws exactly when the type is not \<^verbatim>\<open>error\<close>, and then
  the Error with the text \<^verbatim>\<open>Message is not an error message\<close>; on an error message it
  returns \<open>error\<close> (or \<^verbatim>\<open>Unknown error\<close> when that is absent or falsy), \<open>details\<close> and
  \<open>message_type\<close> of the data. The function has no assignment: its result is a new
  object and the message it was given is the value it was given.
\<close>

theorem extractErrorDetails_spec:
  assumes "is_StandardWebSocketMessage message"
  shows "(isl (extractErrorDetails message) \<longleftrightarrow> own_prop message ''type'' \<noteq> JStr ''error'')
    \<and> (own_prop message ''type'' \<noteq> JStr ''error''
         \<longrightarrow> extractErrorDetails message = Inl (Error ''Message is not an error message''))
    \<and> (own_prop message ''type'' = JStr ''error''
         \<longrightarrow> extractErrorDetails message =
               Inr (JObj [(''error'', if truthy (own_prop (own_prop message ''data'') ''error'')
                                      then own_prop (own_prop message ''data'') ''error''
                                      else JStr ''Unknown error''),
                          (''details'', own_prop (own_prop message ''data'') ''details''),
                          (''messageType'', own_prop (own_prop message ''data'') ''message_type'')]))"
proof -
  from assms obtain kvs where m: "message = JObj kvs"
    by (cases message) (auto simp add: is_StandardWebSocketMessage_def)
  from assms obtain d where d: "own_prop message ''data'' = JObj d"
    by (cases "own_prop message ''data''") (auto simp add: is_StandardWebSocketMessage_def)
  have g1: "get_prop message ''type'' = Inr (own_prop message ''type'')" by (simp add: m get_prop_def)
  have g2: "get_prop message ''data'' = Inr (JObj d)" using d by (simp add: m get_prop_def)
  have g3: "get_prop (JObj d) ''error'' = Inr (own_prop (JObj d) ''error'')" by (simp add: get_prop_def)
  show ?thesis
    unfolding extractErrorDetails_def g1 d by (simp add: g2 [unfolded d] g3 del: own_prop.simps)
qed

theorem extractErrorDetails_spec_witness:
  "extractErrorDetails (JObj [(''type'', JStr ''error''),
       (''data'', JObj [(''error'', JStr ''Handler execution failed''),
                        (''message_type'', JStr ''workflow_status_update''),
                        (''details'', JStr ''Database connection failed'')]),
       (''message_id'', JStr ''error123'')])
     = Inr (JObj [(''error'', JStr ''Handler execution failed''),
                  (''details'', JStr ''Database connection failed''),
                  (''messageType'', JStr ''workflow_status_update'')])
   \<and> extractErrorDetails (JObj [(''type'', JStr ''error''), (''data'', JObj [(''error'', JStr '''')])])
     = Inr (JObj [(''error'', JStr ''Unknown error''), (''details'', JUndefined), (''messageType'', JUndefined)])
   \<and> extractErrorDetails (JObj [(''type'', JStr ''heartbeat''), (''data'', JObj [(''test'', JStr ''data'')])])
     = Inl (Error ''Message is not an error message'')"
  using extractErrorDetails_spec [of "JObj [(''type'', JStr ''error''),
       (''data'', JObj [(''error'', JStr ''Handler execution failed''),
                        (''message_type'', JStr ''workflow_status_update''),
                        (''details'', JStr ''Database connection failed'')]),
       (''message_id'', JStr ''error123'')]"]
    extractErrorDetails_spec [of "JObj [(''type'', JStr ''error''), (''data'', JObj [(''error'', JStr '''')])]"]
    extractErrorDetails_spec [of "JObj [(''type'', JStr ''heartbeat''), (''data'', JObj [(''test'', JStr ''data'')])]"]
  by (simp add: is_StandardWebSocketMessage_def)

section \<open>Sending\<close>

lemma JSON_stringify_text:
  "v \<noteq> JUndefined \<Longrightarrow> \<not> reaches_BigInt v \<Longrightarrow> JSON_stringify v = Inr (Some (str_value v))"
  by (simp add: JSON_stringify_def)

lemma JSON_stringify_throws: "reaches_BigInt v \<Longrightarrow> JSON_stringify v = Inl TypeError"
  by (simp add: JSON_stringify_def)

lemma reaches_BigInt_createStandardMessage:
  "reaches_BigInt (createStandardMessage e type data messageId) = reaches_BigInt (JObj data)"
  by (simp add: createStandardMessage_def)

lemma validateMessage_defined: "validateMessage v \<Longrightarrow> v \<noteq> JUndefined"
  by (auto simp add: validateMessage_def)

lemma createStandardMessage_defined: "createStandardMessage e t d mid \<noteq> JUndefined"
  by (simp add: createStandardMessage_def)

lemma sendRawMessage_closed: "\<not> is_open h \<Longrightarrow> sendRawMessage message h = (False, h)"
  by (auto simp add: sendRawMessage_def is_open_def split: option.splits)

lemma sendMessage_closed: "\<not> is_open h \<Longrightarrow> sendMessage e type data h = (False, h)"
  by (auto simp add: sendMessage_def is_open_def split: option.splits)

lemma sendRawMessage_invalid: "\<not> validateMessage message \<Longrightarrow> sendRawMessage message h = (False, h)"
  by (auto simp add: sendRawMessage_def split: option.splits)

lemma sendRawMessage_throws: "reaches_BigInt message \<Longrightarrow> sendRawMessage message h = (False, h)"
  by (auto simp add: sendRawMessage_def JSON_stringify_throws split: option.splits)

lemma sendMessage_throws: "reaches_BigInt (JObj data) \<Longrightarrow> sendMessage e type data h = (False, h)"
proof -
  assume "reaches_BigInt (JObj data)"
  then have "reaches_BigInt (createStandardMessage e type data None)"
    by (simp only: reaches_BigInt_createStandardMessage)
  then have "JSON_stringify (createStandardMessage e type data None) = Inl TypeError"
    by (rule JSON_stringify_throws)
  then show ?thesis by (simp add: sendMessage_def Let_def split: option.splits)
qed

lemma sendRawMessage_open:
  assumes "is_open h" "validateMessage message" "\<not> reaches_BigInt message"
  shows "fst (sendRawMessage message h) \<and> frames (snd (sendRawMessage message h)) = frames h @ [str_value message]
         \<and> messagesSent (stats (snd (sendRawMessage message h))) = messagesSent (stats h) + 1"
proof -
  from assms(1) obtain ws where ws: "wsRef h = Some ws" "readyState ws = OPEN"
    by (auto simp add: is_open_def split: option.splits)
  then show ?thesis
    using assms(2) JSON_stringify_text [OF validateMessage_defined [OF assms(2)] assms(3)]
    by (simp add: sendRawMessage_def ws_send_def frames_def DOMString_def)
qed

lemma sendMessage_open:
  assumes "is_open h" "\<not> reaches_BigInt (JObj data)"
  shows "fst (sendMessage e type data h)
         \<and> frames (snd (sendMessage e type data h)) = frames h @ [str_value (createStandardMessage e type data None)]
         \<and> messagesSent (stats (snd (sendMessage e type data h))) = messagesSent (stats h) + 1"
proof -
  from assms(1) obtain ws where ws: "wsRef h = Some ws" "readyState ws = OPEN"
    by (auto simp add: is_open_def split: option.splits)
  have "\<not> reaches_BigInt (createStandardMessage e type data None)"
    using assms(2) by (simp add: reaches_BigInt_createStandardMessage del: reaches_BigInt.simps)
  from JSON_stringify_text [OF createStandardMessage_defined this] ws show ?thesis
    by (simp add: sendMessage_def ws_send_def frames_def Let_def DOMString_def)
qed

text \<open>
  C5 (amended). While the channel is not open, \<^verbatim>\<open>sendMessage\<close> and \<^verbatim>\<open>sendRawMessage\<close>
  return \<^verbatim>\<open>false\<close> and change nothing; both are total, so nothing is thrown. While it is
  open, \<^verbatim>\<open>sendRawMessage\<close> of a valid message and \<^verbatim>\<open>sendMessage\<close> of any type and data
  transmit the frame of the message and return \<^verbatim>\<open>true\<close> when \<^verbatim>\<open>JSON.stringify\<close> has a
  text for the message; when it throws, the error is caught, nothing is transmitted and
  \<^verbatim>\<open>false\<close> is returned.
\<close>

theorem send_result:
  "(\<not> is_open h \<longrightarrow> sendMessage e type data h = (False, h) \<and> sendRawMessage message h = (False, h))
   \<and> (reaches_BigInt message \<longrightarrow> sendRawMessage message h = (False, h))
   \<and> (reaches_BigInt (JObj data) \<longrightarrow> sendMessage e type data h = (False, h))
   \<and> (is_open h \<and> validateMessage message \<and> \<not> reaches_BigInt message \<longrightarrow>
        fst (sendRawMessage message h)
        \<and> frames (snd (sendRawMessage message h)) = frames h @ [str_value message])
   \<and> (is_open h \<and> \<not> reaches_BigInt (JObj data) \<longrightarrow>
        fst (sendMessage e type data h)
        \<and> frames (snd (sendMessage e type data h))
            = frames h @ [str_value (createStandardMessage e type data None)])"
  using sendRawMessage_closed [of h message] sendMessage_closed [of h e type data]
    sendRawMessage_throws [of message h] sendMessage_throws [of data e type h]
    sendRawMessage_open [of h message] sendMessage_open [of h data e type]
  by blast

text \<open>
  The claim fails on an open channel: a message whose data holds a BigInt passes
  \<^verbatim>\<open>validateMessage\<close>, \<^verbatim>\<open>JSON.stringify\<close> throws on it, and both send paths return
  \<^verbatim>\<open>false\<close> with nothing transmitted.
\<close>

theorem send_result_counterexample:
  "is_open open_hook
   \<and> validateMessage (JObj [(''type'', JStr ''user_message''), (''data'', JObj [(''count'', JBigInt 10)])])
   \<and> sendRawMessage (JObj [(''type'', JStr ''user_message''), (''data'', JObj [(''count'', JBigInt 10)])]) open_hook
       = (False, open_hook)
   \<and> sendMessage \<lparr>date_iso = ''2025-08-18T02:06:24.806Z'', date_now = 1755482784806, random36 = ''0.k3j9x2m4pq7''\<rparr>
        USER_MESSAGE [(''count'', JBigInt 10)] open_hook
       = (False, open_hook)"
  by (simp add: is_open_def open_hook_def validateMessage_def sendRawMessage_def sendMessage_def
      JSON_stringify_def createStandardMessage_def)

theorem send_result_witness:
  \<open>sendRawMessage (JObj [(''type'', JStr ''user_message''), (''data'', JObj [(''content'', JStr ''hi'')])]) initial_hook
     = (False, initial_hook)
   \<and> fst (sendRawMessage (JObj [(''type'', JStr ''user_message''), (''data'', JObj [(''content'', JStr ''hi'')])])
        open_hook)
   \<and> frames (snd (sendRawMessage (JObj [(''type'', JStr ''user_message''), (''data'', JObj [(''content'', JStr ''hi'')])])
        open_hook))
     = [''{"type":"user_message","data":{"content":"hi"}}'']\<close>
proof -
  let ?m = "JObj [(''type'', JStr ''user_message''), (''data'', JObj [(''content'', JStr ''hi'')])]"
  let ?e = "\<lparr>date_iso = ''2025-08-18T02:06:24.806Z'', date_now = 1755482784806, random36 = ''0.k3j9x2m4pq7''\<rparr>"
  have c: "\<not> is_open initial_hook" by (simp add: is_open_def initial_hook_def)
  have o: "is_open open_hook" by (simp add: is_open_def open_hook_def)
  have v: "validateMessage ?m" by (simp add: validateMessage_def)
  have b: "\<not> reaches_BigInt ?m" by simp
  have f: "frames open_hook = []" by (simp add: frames_def open_hook_def)
  have s: \<open>str_value ?m = ''{"type":"user_message","data":{"content":"hi"}}''\<close> by code_simp
  from send_result [of initial_hook ?e USER_MESSAGE "[]" ?m] c
  have 1: "sendRawMessage ?m initial_hook = (False, initial_hook)" by blast
  from send_result [of open_hook ?e USER_MESSAGE "[]" ?m] o v b
  have 2: "fst (sendRawMessage ?m open_hook) \<and> frames (snd (sendRawMessage ?m open_hook)) = frames open_hook @ [str_value ?m]"
    by blast
  from 2 have 3: "fst (sendRawMessage ?m open_hook)"
    and 4: "frames (snd (sendRawMessage ?m open_hook)) = [str_value ?m]"
    by (simp_all add: f del: str_value.simps)
  from 1 3 4 [unfolded s] show ?thesis by blast
qed

text \<open>
  C9. Every frame the two send paths transmit is the frame of a message that satisfies
  \<^verbatim>\<open>validateMessage\<close>: \<^verbatim>\<open>sendRawMessage\<close> returns \<^verbatim>\<open>false\<close> and transmits nothing
  when the message fails validation, it transmits exactly the frame of the message when it
  returns \<^verbatim>\<open>true\<close>, and \<^verbatim>\<open>sendMessage\<close> transmits at most the frame of the message
  \<^verbatim>\<open>createStandardMessage\<close> builds, which is valid.
\<close>

theorem sent_frames_valid:
  "(\<not> validateMessage message \<longrightarrow> sendRawMessage message h = (False, h))
   \<and> frames (snd (sendRawMessage message h))
       = frames h @ (if fst (sendRawMessage message h) then [str_value message] else [])
   \<and> (fst (sendRawMessage message h) \<longrightarrow> validateMessage message)
   \<and> frames (snd (sendMessage e type data h))
       = frames h @ (if fst (sendMessage e type data h) then [str_value (createStandardMessage e type data None)] else [])
   \<and> validateMessage (createStandardMessage e type data None)"
proof -
  have raw: "frames (snd (sendRawMessage message h))
       = frames h @ (if fst (sendRawMessage message h) then [str_value message] else [])
     \<and> (fst (sendRawMessage message h) \<longrightarrow> validateMessage message)"
  proof (cases "is_open h \<and> validateMessage message \<and> \<not> reaches_BigInt message")
    case True
    then show ?thesis using sendRawMessage_open [of h message] by simp
  next
    case False
    then have "sendRawMessage message h = (False, h)"
      using sendRawMessage_closed [of h message] sendRawMessage_invalid [of message h]
        sendRawMessage_throws [of message h] by blast
    then show ?thesis by simp
  qed
  have std: "frames (snd (sendMessage e type data h))
       = frames h @ (if fst (sendMessage e type data h) then [str_value (createStandardMessage e type data None)] else [])"
  proof (cases "is_open h \<and> \<not> reaches_BigInt (JObj data)")
    case True
    then show ?thesis using sendMessage_open [of h data e type] by simp
  next
    case False
    then have "sendMessage e type data h = (False, h)"
      using sendMessage_closed [of h e type data] sendMessage_throws [of data e type h] by blast
    then show ?thesis by simp
  qed
  from raw std sendRawMessage_invalid [of message h] show ?thesis
    by (simp add: validateMessage_createStandardMessage)
qed

theorem sent_frames_valid_witness:
  \<open>sendRawMessage (JObj [(''type'', JStr ''''), (''data'', JObj [])]) open_hook = (False, open_hook)
   \<and> frames (snd (sendMessage
        \<lparr>date_iso = ''2025-08-18T02:06:24.806Z'', date_now = 5, random36 = ''0.k3j9x2m4pq7''\<rparr>
        USER_MESSAGE [(''content'', JStr ''hi'')] open_hook))
     = [''{"type":"user_message","data":{"content":"hi"},"timestamp":"2025-08-18T02:06:24.806Z","message_id":"msg_5_k3j9x2m4p"}'']\<close>
proof -
  let ?bad = "JObj [(''type'', JStr ''''), (''data'', JObj [])]"
  let ?e = "\<lparr>date_iso = ''2025-08-18T02:06:24.806Z'', date_now = 5, random36 = ''0.k3j9x2m4pq7''\<rparr>"
  have o: "is_open open_hook" by (simp add: is_open_def open_hook_def)
  have nv: "\<not> validateMessage ?bad" by (simp add: validateMessage_def)
  have f: "frames open_hook = []" by (simp add: frames_def open_hook_def)
  have sent: "fst (sendMessage ?e USER_MESSAGE [(''content'', JStr ''hi'')] open_hook)"
    using sendMessage_open [OF o, of "[(''content'', JStr ''hi'')]"] by simp
  have m: "createStandardMessage ?e USER_MESSAGE [(''content'', JStr ''hi'')] None
     = JObj [(''type'', JStr ''user_message''), (''data'', JObj [(''content'', JStr ''hi'')]),
             (''timestamp'', JStr ''2025-08-18T02:06:24.806Z''), (''message_id'', JStr ''msg_5_k3j9x2m4p'')]"
    by (simp add: createStandardMessage_def generated_message_id_def substr_def show_int_def
        show_nat.simps digit_char_def)
  have s: \<open>str_value (JObj [(''type'', JStr ''user_message''), (''data'', JObj [(''content'', JStr ''hi'')]),
             (''timestamp'', JStr ''2025-08-18T02:06:24.806Z''), (''message_id'', JStr ''msg_5_k3j9x2m4p'')])
     = ''{"type":"user_message","data":{"content":"hi"},"timestamp":"2025-08-18T02:06:24.806Z","message_id":"msg_5_k3j9x2m4p"}''\<close>
    by code_simp
  note t = sent_frames_valid [of ?bad open_hook ?e USER_MESSAGE "[(''content'', JStr ''hi'')]"]
  from t nv have 1: "sendRawMessage ?bad open_hook = (False, open_hook)" by blast
  from t sent have 2: "frames (snd (sendMessage ?e USER_MESSAGE [(''content'', JStr ''hi'')] open_hook))
      = frames open_hook @ [str_value (createStandardMessage ?e USER_MESSAGE [(''content'', JStr ''hi'')] None)]"
    by simp
  from 2 have 3: "frames (snd (sendMessage ?e USER_MESSAGE [(''content'', JStr ''hi'')] open_hook))
      = [str_value (createStandardMessage ?e USER_MESSAGE [(''content'', JStr ''hi'')] None)]"
    by (simp add: f del: str_value.simps)
  from 1 3 [unfolded m s] show ?thesis by blast
qed

section \<open>Heartbeat\<close>











text \<open>
  With \<^verbatim>\<open>url\<close> and \<^verbatim>\<open>params\<close> bound, the commit that follows the opening of a socket runs
  the second effect with \<^verbatim>\<open>isConnected\<close> true, and so \<^verbatim>\<open>reconnect()\<close>: the heartbeat
  timer is cleared, the socket is closed and let go of, and a connect is scheduled. With
  the names unbound the first render throws, and the hook is left as it was, with no
  socket.
\<close>

lemma reconnect_after_open:
  "(url_params_bound p \<and> committed h = Some False \<longrightarrow>
      wsRef (run p options h [SocketOpen now, Commit fresh]) = None
      \<and> heartbeatTimeoutRef (run p options h [SocketOpen now, Commit fresh]) = None
      \<and> \<not> isConnected (run p options h [SocketOpen now, Commit fresh])
      \<and> pendingConnects (run p options h [SocketOpen now, Commit fresh]) = pendingConnects h + 1)
   \<and> (\<not> url_params_bound p \<and> committed h = None \<longrightarrow> run p options h [Commit fresh] = h)"
proof -
  have d: "\<And>g. wsRef (disconnect g) = None \<and> heartbeatTimeoutRef (disconnect g) = None
              \<and> \<not> isConnected (disconnect g) \<and> pendingConnects (disconnect g) = pendingConnects g"
    by (simp add: disconnect_def stopHeartbeat_def Let_def)
  have r: "\<And>g. wsRef (reconnect g) = None \<and> heartbeatTimeoutRef (reconnect g) = None
              \<and> \<not> isConnected (reconnect g) \<and> pendingConnects (reconnect g) = pendingConnects g + 1"
    using d by (simp add: reconnect_def Let_def)
  have c: "\<And>g. pendingConnects (connect p options g) = pendingConnects g"
    by (simp add: connect_def Let_def split: sum.splits)
  let ?o = "onopen now options h"
  have o: "isConnected ?o" "committed ?o = committed h" "pendingConnects ?o = pendingConnects h"
    by (simp_all add: onopen_def startHeartbeat_def Let_def)
  have 1: "url_params_bound p \<and> committed h = Some False \<longrightarrow>
      step p options ?o (Commit fresh)
        = (reconnect (if fresh then connect_effect p options (connect_cleanup ?o) else ?o))\<lparr>committed := Some True\<rparr>"
    using o by (simp add: commit_def reconnect_effect_def Let_def)
  have p1: "pendingConnects (if fresh then connect_effect p options (connect_cleanup ?o) else ?o) = pendingConnects h"
    using o(3) c d by (simp add: connect_effect_def connect_cleanup_def)
  have 2: "\<not> url_params_bound p \<and> committed h = None \<longrightarrow> run p options h [Commit fresh] = h"
    by (simp add: run_def commit_def)
  from 1 r p1 2 show ?thesis by (simp add: run_def)
qed

lemma reconnect_after_open_example:
  "wsRef (run local_platform default_options initial_hook
       [Commit False, SocketOpen ''2025-08-18T02:06:00.000Z'', Commit False]) = None
   \<and> heartbeatTimeoutRef (run local_platform default_options initial_hook
       [Commit False, SocketOpen ''2025-08-18T02:06:00.000Z'', Commit False]) = None
   \<and> pendingConnects (run local_platform default_options initial_hook
       [Commit False, SocketOpen ''2025-08-18T02:06:00.000Z'', Commit False]) = 1
   \<and> run (local_platform\<lparr>url_params_bound := False\<rparr>) default_options initial_hook [Commit False] = initial_hook"
proof -
  let ?h = "run local_platform default_options initial_hook [Commit False]"
  have b: "url_params_bound local_platform" "\<not> url_params_bound (local_platform\<lparr>url_params_bound := False\<rparr>)"
    by (simp_all add: local_platform_def)
  have h: "committed ?h = Some False" "pendingConnects ?h = 0"
    by (simp_all add: run_def commit_def connect_effect_def reconnect_effect_def connect_def is_open_def
        initial_hook_def default_options_def local_platform_def buildWebSocketUrl_def URL_new_def Let_def)
  have u: "run local_platform default_options initial_hook
       [Commit False, SocketOpen ''2025-08-18T02:06:00.000Z'', Commit False]
     = run local_platform default_options ?h [SocketOpen ''2025-08-18T02:06:00.000Z'', Commit False]"
    by (simp add: run_def)
  from reconnect_after_open [of local_platform ?h default_options "''2025-08-18T02:06:00.000Z''" False] b(1) h
  have 1: "wsRef (run local_platform default_options ?h [SocketOpen ''2025-08-18T02:06:00.000Z'', Commit False]) = None
      \<and> heartbeatTimeoutRef (run local_platform default_options ?h [SocketOpen ''2025-08-18T02:06:00.000Z'', Commit False]) = None
      \<and> pendingConnects (run local_platform default_options ?h [SocketOpen ''2025-08-18T02:06:00.000Z'', Commit False]) = 1"
    by simp
  have n: "committed initial_hook = None" by (simp add: initial_hook_def)
  from reconnect_after_open [of "local_platform\<lparr>url_params_bound := False\<rparr>" initial_hook default_options
      "''now''" False] b(2) n
  have 2: "run (local_platform\<lparr>url_params_bound := False\<rparr>) default_options initial_hook [Commit False] = initial_hook"
    by blast
  from 1 2 show ?thesis unfolding u by blast
qed

section \<open>Connection parameters\<close>







section \<open>The iteration bound\<close>

lemma thread_save [simp]: "thread (save st) = thread st"
  by (simp add: save_def)

lemma complete_step_fields [simp]:
  "completed_steps (complete_step reg name nxt patch t) = completed_steps t @ [name]"
  "max_iterations (complete_step reg name nxt patch t) = max_iterations t"
  "status (complete_step reg name nxt patch t) = status t"
  "current_step (complete_step reg name nxt patch t) = nxt"
  "errors (complete_step reg name nxt patch t) = errors t"
  by (simp_all add: complete_step_def)

lemma fail_thread_fields [simp]:
  "completed_steps (fail_thread name reason t) = completed_steps t"
  "max_iterations (fail_thread name reason t) = max_iterations t"
  "status (fail_thread name reason t) = failed"
  "errors (fail_thread name reason t) = errors t @ [(name, reason)]"
  by (simp_all add: fail_thread_def)

lemma request_review_fields [simp]:
  "completed_steps (thread (request_review name ty data recs st)) = completed_steps (thread st)"
  "max_iterations (thread (request_review name ty data recs st)) = max_iterations (thread st)"
  "status (thread (request_review name ty data recs st)) \<noteq> running"
  by (simp_all add: request_review_def)








end
